theory Spec2Isabelle
  imports Main
begin

section \<open>Strings and numbers of the host language\<close>

text \<open>
  A string of the program is a list of code units. The model keeps the code units
  U+0000 to U+00FF, one \<^typ>\<open>char\<close> each; the white space that \<open>String.prototype.trim\<close>
  removes is, among these, TAB, LF, VT, FF, CR, SPACE and NBSP.
\<close>

definition isWhitespace :: "char \<Rightarrow> bool" where
  "isWhitespace c \<longleftrightarrow>
     c \<in> set [CHR 0x09, CHR 0x0A, CHR 0x0B, CHR 0x0C, CHR 0x0D, CHR 0x20, CHR 0xA0]"

definition trim :: "string \<Rightarrow> string" where
  "trim s = rev (dropWhile isWhitespace (rev (dropWhile isWhitespace s)))"

text \<open>\<open>s.split(sep)\<close> for a one-character separator: the pieces between the separators,
  \<open>[""]\<close> for the empty string.\<close>

fun split_on :: "char \<Rightarrow> string \<Rightarrow> string list" where
  "split_on sep [] = [[]]"
| "split_on sep (c # cs) =
     (if c = sep then [] # split_on sep cs
      else (case split_on sep cs of
              [] \<Rightarrow> [[c]]
            | p # ps \<Rightarrow> (c # p) # ps))"

text \<open>\<open>lines.join(sep)\<close>.\<close>

fun join :: "string \<Rightarrow> string list \<Rightarrow> string" where
  "join sep [] = []"
| "join sep [l] = l"
| "join sep (l # ls) = l @ sep @ join sep ls"

text \<open>A number in a template literal: the decimal digits of an integer.\<close>

definition digit_char :: "nat \<Rightarrow> char" where
  "digit_char d = ''0123456789'' ! d"

fun show_nat :: "nat \<Rightarrow> string" where
  "show_nat n = (if n < 10 then [digit_char n] else show_nat (n div 10) @ [digit_char (n mod 10)])"

declare show_nat.simps [simp del]

definition show_int :: "int \<Rightarrow> string" where
  "show_int i = (if i < 0 then CHR ''-'' # show_nat (nat (- i)) else show_nat (nat i))"

text \<open>
  A number of the program is a double. \<open>Exact i\<close> is the double that is the integer \<open>i\<close>,
  which every integer below \<open>2^53\<close> in magnitude is. \<open>Rounded i\<close> is the double that the
  host takes for the integer \<open>i\<close> of magnitude \<open>2^53\<close> or more: a rounding of \<open>i\<close>, or an
  infinity, which the model does not compute; it has the sign of \<open>i\<close> and its magnitude
  is \<open>2^53\<close> or more.
\<close>

datatype number = NaN | Exact int | Rounded int

text \<open>
  \<open>Number.parseInt(s, 10)\<close>: leading white space is skipped, one sign is read, then the
  longest run of decimal digits; no digit gives \<open>NaN\<close>. What follows the digits is
  ignored. The result is the double for the integer that the digits denote.
\<close>

definition isDigit :: "char \<Rightarrow> bool" where
  "isDigit c \<longleftrightarrow> c \<in> set ''0123456789''"

definition digit_val :: "char \<Rightarrow> nat" where
  "digit_val c = of_char c - 48"

definition digits_val :: "string \<Rightarrow> nat" where
  "digits_val ds = foldl (\<lambda>n c. 10 * n + digit_val c) 0 ds"

definition parseInt :: "string \<Rightarrow> number" where
  "parseInt s =
     (let t = dropWhile isWhitespace s;
          neg = (case t of c # _ \<Rightarrow> c = CHR ''-'' | [] \<Rightarrow> False);
          u = (case t of c # r \<Rightarrow> if c = CHR ''-'' \<or> c = CHR ''+'' then r else t | [] \<Rightarrow> t);
          ds = takeWhile isDigit u
      in if ds = [] then NaN
         else (let i = (if neg then - int (digits_val ds) else int (digits_val ds))
               in if \<bar>i\<bar> < 2 ^ 53 then Exact i else Rounded i))"

text \<open>
  \<open>Number.isNaN(n)\<close>, the comparison \<open>n <= 0\<close>, and the comparison \<open>length < n + 1\<close> of
  the length of an array with a number. A rounding keeps the sign, and the length of an
  array is below \<open>2^53\<close>: it is below every positive rounded number.
\<close>

definition isNaN :: "number \<Rightarrow> bool" where
  "isNaN n \<longleftrightarrow> n = NaN"

fun atMost0 :: "number \<Rightarrow> bool" where
  "atMost0 NaN = False"
| "atMost0 (Exact i) = (i \<le> 0)"
| "atMost0 (Rounded i) = (i \<le> 0)"

fun lengthBelowSucc :: "nat \<Rightarrow> number \<Rightarrow> bool" where
  "lengthBelowSucc l NaN = False"
| "lengthBelowSucc l (Exact i) = (int l < i + 1)"
| "lengthBelowSucc l (Rounded i) = (0 < i)"

section \<open>The board\<close>

text \<open>\<open>Map\<close> objects, in insertion order: \<open>has\<close>, \<open>get\<close>, \<open>set\<close>, \<open>delete\<close>.\<close>

definition mapHas :: "('k \<times> 'v) list \<Rightarrow> 'k \<Rightarrow> bool" where
  "mapHas m k \<longleftrightarrow> k \<in> set (map fst m)"

definition mapGet :: "('k \<times> 'v) list \<Rightarrow> 'k \<Rightarrow> 'v option" where
  "mapGet m k = map_of m k"

fun mapSet :: "'k \<Rightarrow> 'v \<Rightarrow> ('k \<times> 'v) list \<Rightarrow> ('k \<times> 'v) list" where
  "mapSet k v [] = [(k, v)]"
| "mapSet k v (p # ps) = (if fst p = k then (k, v) # ps else p # mapSet k v ps)"

definition mapDelete :: "'k \<Rightarrow> ('k \<times> 'v) list \<Rightarrow> ('k \<times> 'v) list" where
  "mapDelete k m = filter (\<lambda>p. fst p \<noteq> k) m"

record cardCell =
  card_val :: string
  faceUp :: bool
  controller :: "string option"

text \<open>
  A recorded card position. \<open>NoneCard\<close> is the object \<open>Board.noneCard\<close>, which the
  program recognises by identity; its coordinates are both \<open>-19527\<close>. \<open>Pos row col\<close> is
  any other position object.
\<close>

datatype cardPos = NoneCard | Pos int int

fun pos_row :: "cardPos \<Rightarrow> int" where
  "pos_row NoneCard = - 19527"
| "pos_row (Pos r c) = r"

fun pos_col :: "cardPos \<Rightarrow> int" where
  "pos_col NoneCard = - 19527"
| "pos_col (Pos r c) = c"

record playerState =
  firstCard :: "cardPos option"
  secondCard :: "cardPos option"
  hasMatch :: bool

text \<open>
  The fields of a \<open>Board\<close>. A listener is the closure \<open>() => resolve(this.look(playerId))\<close>
  of one \<open>watch\<close> call, kept as its \<open>playerId\<close>; \<open>delivered\<close> is the history of what the
  listeners were resolved with, (watcher, snapshot) in order.
\<close>

record board_state =
  height :: int
  width :: int
  board :: "cardCell list list"
  playerStates :: "(string \<times> playerState) list"
  listeners :: "string list"
  claimLocks :: "(string \<times> string) list"
  delivered :: "(string \<times> string) list"

datatype error = Error string | AssertionError string

text \<open>\<open>this.board[row]?.[col]\<close> at integer indices.\<close>

definition cellAt :: "cardCell list list \<Rightarrow> int \<Rightarrow> int \<Rightarrow> cardCell option" where
  "cellAt b row col =
     (if 0 \<le> row \<and> row < int (length b) then
        (let r = b ! nat row in
         if 0 \<le> col \<and> col < int (length r) then Some (r ! nat col) else None)
      else None)"

text \<open>A field update on the cell object at a position that \<open>cellAt\<close> found.\<close>

definition modCell :: "cardCell list list \<Rightarrow> int \<Rightarrow> int \<Rightarrow> (cardCell \<Rightarrow> cardCell) \<Rightarrow> cardCell list list" where
  "modCell b row col f =
     (case cellAt b row col of
        None \<Rightarrow> b
      | Some x \<Rightarrow> b[nat row := (b ! nat row)[nat col := f x]])"

definition onCell :: "board_state \<Rightarrow> int \<Rightarrow> int \<Rightarrow> (cardCell \<Rightarrow> cardCell) \<Rightarrow> board_state" where
  "onCell st row col f = st\<lparr>board := modCell (board st) row col f\<rparr>"

subsection \<open>The representation checks\<close>

fun firstFailure :: "('a \<Rightarrow> string option) \<Rightarrow> 'a list \<Rightarrow> string option" where
  "firstFailure chk [] = None"
| "firstFailure chk (x # xs) = (case chk x of Some m \<Rightarrow> Some m | None \<Rightarrow> firstFailure chk xs)"

definition checkRepCell :: "cardCell \<Rightarrow> string option" where
  "checkRepCell cell =
     (if \<not> length (card_val cell) > 0 then Some ''card values must be non-empty''
      else if controller cell \<noteq> None \<and> \<not> faceUp cell then Some ''cards with controller must be face up''
      else None)"

definition checkRepRow :: "int \<Rightarrow> cardCell list \<Rightarrow> string option" where
  "checkRepRow w row =
     (if int (length row) \<noteq> w then Some ''all rows must have width length''
      else firstFailure checkRepCell row)"

definition checkRep :: "board_state \<Rightarrow> string option" where
  "checkRep st =
     (if \<not> height st > 0 then Some ''height must be positive''
      else if \<not> width st > 0 then Some ''width must be positive''
      else if int (length (board st)) \<noteq> height st then Some ''board height must match height field''
      else firstFailure (checkRepRow (width st)) (board st))"

definition checkCell :: "cardCell \<Rightarrow> string option" where
  "checkCell cell =
     (if length (card_val cell) = 0 \<and> faceUp cell then Some ''removed card must be face down''
      else if length (card_val cell) = 0 \<and> controller cell \<noteq> None
        then Some ''removed card must have no controller''
      else if controller cell \<noteq> None \<and> \<not> faceUp cell then Some ''cards with controller must be face up''
      else None)"

definition checkRow :: "int \<Rightarrow> cardCell list \<Rightarrow> string option" where
  "checkRow w row =
     (if int (length row) \<noteq> w then Some ''all rows must have width length''
      else firstFailure checkCell row)"

definition checkRepFunctions :: "board_state \<Rightarrow> string option" where
  "checkRepFunctions st =
     (if \<not> height st > 0 then Some ''height must be positive''
      else if \<not> width st > 0 then Some ''width must be positive''
      else if int (length (board st)) \<noteq> height st then Some ''board height must match height field''
      else firstFailure (checkRow (width st)) (board st))"

subsection \<open>look\<close>

text \<open>
  The line of one cell, as the loop body of \<open>look\<close> computes it: \<open>status\<close> starts as
  \<open>down\<close>, and each of the three branches of the conditional assigns it again.
\<close>

definition cellLine :: "string \<Rightarrow> cardCell \<Rightarrow> string" where
  "cellLine playerId cell =
     (let (status, text) =
        (if length (card_val cell) = 0 then (''none'', [])
         else if controller cell = Some playerId \<and> faceUp cell then (''my'', card_val cell)
         else (''up'', card_val cell))
      in trim (status @ '' '' @ text))"

definition snapshot :: "board_state \<Rightarrow> string \<Rightarrow> string" where
  "snapshot st playerId =
     join ''\<newline>''
       ((show_int (height st) @ ''x'' @ show_int (width st))
        # concat (map (map (cellLine playerId)) (board st)))"

definition look :: "board_state \<Rightarrow> string \<Rightarrow> error + string" where
  "look st playerId =
     (let out = snapshot st playerId in
      case checkRepFunctions st of
        Some m \<Rightarrow> Inl (AssertionError m)
      | None \<Rightarrow> Inr out)"

subsection \<open>watch and notifyAll\<close>

text \<open>
  \<open>watch\<close> registers its listener, then runs the representation check; its promise stays
  pending. The result is the assertion that failed, if one did.
\<close>

definition watch :: "board_state \<Rightarrow> string \<Rightarrow> error option \<times> board_state" where
  "watch st playerId =
     (let st1 = st\<lparr>listeners := listeners st @ [playerId]\<rparr> in
      (map_option AssertionError (checkRepFunctions st1), st1))"

text \<open>
  \<open>notifyAll\<close> empties the listener list, then calls each listener it held with
  \<open>this.look("")\<close>; the listener resolves its promise with \<open>this.look(playerId)\<close>. The board
  does not change in between, so a failing assertion of \<open>look\<close> fails at the first listener.
\<close>

definition notifyAll :: "board_state \<Rightarrow> error option \<times> board_state" where
  "notifyAll st =
     (let ls = listeners st;
          st1 = st\<lparr>listeners := []\<rparr>
      in if ls = [] then (None, st1)
         else (case look st1 [] of
                 Inl e \<Rightarrow> (Some e, st1)
               | Inr _ \<Rightarrow> (None, st1\<lparr>delivered := delivered st1 @ map (\<lambda>w. (w, snapshot st1 w)) ls\<rparr>)))"

subsection \<open>The claim registry\<close>

definition cellKey :: "int \<Rightarrow> int \<Rightarrow> string" where
  "cellKey row col = show_int row @ '','' @ show_int col"

definition tryClaimCell :: "board_state \<Rightarrow> int \<Rightarrow> int \<Rightarrow> string \<Rightarrow> bool \<times> board_state" where
  "tryClaimCell st row col owner =
     (let k = cellKey row col in
      if mapHas (claimLocks st) k then (False, st)
      else (True, st\<lparr>claimLocks := mapSet k owner (claimLocks st)\<rparr>))"

definition releaseClaim :: "board_state \<Rightarrow> int \<Rightarrow> int \<Rightarrow> string \<Rightarrow> board_state" where
  "releaseClaim st row col owner =
     (let k = cellKey row col in
      if mapGet (claimLocks st) k = Some owner then st\<lparr>claimLocks := mapDelete k (claimLocks st)\<rparr>
      else st)"

subsection \<open>cleanupPreviousMove\<close>

definition idle :: playerState where
  "idle = \<lparr>firstCard = None, secondCard = None, hasMatch = False\<rparr>"

definition setState :: "board_state \<Rightarrow> string \<Rightarrow> playerState \<Rightarrow> board_state" where
  "setState st playerId s = st\<lparr>playerStates := mapSet playerId s (playerStates st)\<rparr>"

definition refersTo :: "cardPos option \<Rightarrow> int \<Rightarrow> int \<Rightarrow> bool" where
  "refersTo p row col \<longleftrightarrow> (case p of None \<Rightarrow> False | Some q \<Rightarrow> pos_row q = row \<and> pos_col q = col)"

definition isCardInPlayerStates :: "board_state \<Rightarrow> string \<Rightarrow> int \<Rightarrow> int \<Rightarrow> bool" where
  "isCardInPlayerStates st playerId row col \<longleftrightarrow>
     list_ex (\<lambda>(pid, pState). pid \<noteq> playerId \<and>
                (refersTo (firstCard pState) row col \<or> refersTo (secondCard pState) row col))
             (playerStates st)"

text \<open>Rule 3-A on one recorded card: the cell, when there is one, loses its card.\<close>

definition removeCard :: "board_state \<Rightarrow> cardPos \<Rightarrow> board_state" where
  "removeCard st p =
     onCell st (pos_row p) (pos_col p) (\<lambda>c. c\<lparr>card_val := [], faceUp := False, controller := None\<rparr>)"

text \<open>Rule 3-B on one recorded card.\<close>

definition turnDown :: "board_state \<Rightarrow> string \<Rightarrow> cardPos \<Rightarrow> board_state" where
  "turnDown st playerId p =
     (case cellAt (board st) (pos_row p) (pos_col p) of
        None \<Rightarrow> st
      | Some c \<Rightarrow>
          if faceUp c \<and> controller c = None then
            (if \<not> isCardInPlayerStates st playerId (pos_row p) (pos_col p)
             then onCell st (pos_row p) (pos_col p) (\<lambda>c. c\<lparr>faceUp := False\<rparr>)
             else st)
          else st)"

definition cleanupPreviousMove :: "board_state \<Rightarrow> string \<Rightarrow> error option \<times> board_state" where
  "cleanupPreviousMove st playerId =
     (case mapGet (playerStates st) playerId of
        None \<Rightarrow> (None, st)
      | Some state \<Rightarrow>
          (case (firstCard state, secondCard state) of
             (Some first, Some second) \<Rightarrow>
               if hasMatch state then
                 (let st1 = removeCard st first;
                      st2 = removeCard st1 second
                  in (None, setState st2 playerId idle))
               else
                 (let st1 = turnDown st playerId first in
                  if second = NoneCard then notifyAll (setState st1 playerId idle)
                  else (let st2 = turnDown st1 playerId second
                        in (None, setState st2 playerId idle)))
           | _ \<Rightarrow> (None, st)))"

subsection \<open>flip\<close>

text \<open>
  A call of \<open>flip\<close> runs until it returns, throws, or awaits \<open>watch\<close>. The three places
  where it awaits: in the loop of rule 1-D, in the claim loop outside the claimed section
  (either place there continues at the head of the loop), and inside the claimed section.
\<close>

datatype waitPoint = WaitControlled | WaitRetry | WaitClaimed

datatype outcome = Returned string | Threw error | Awaiting waitPoint

definition awaitWatch :: "board_state \<Rightarrow> string \<Rightarrow> waitPoint \<Rightarrow> outcome \<times> board_state" where
  "awaitWatch st playerId wp =
     (case watch st playerId of
        (Some e, st1) \<Rightarrow> (Threw e, st1)
      | (None, st1) \<Rightarrow> (Awaiting wp, st1))"

text \<open>The end of a successful flip or map: \<open>notifyAll\<close>, \<open>look\<close>, \<open>checkRepFunctions\<close>, return.\<close>

definition publishAndLook :: "board_state \<Rightarrow> string \<Rightarrow> outcome \<times> board_state" where
  "publishAndLook st playerId =
     (case notifyAll st of
        (Some e, st1) \<Rightarrow> (Threw e, st1)
      | (None, st1) \<Rightarrow>
          (case look st1 playerId of
             Inl e \<Rightarrow> (Threw e, st1)
           | Inr out \<Rightarrow>
               (case checkRepFunctions st1 of
                  Some m \<Rightarrow> (Threw (AssertionError m), st1)
                | None \<Rightarrow> (Returned out, st1))))"

definition controlledByOther :: "cardCell \<Rightarrow> string \<Rightarrow> bool" where
  "controlledByOther cell playerId \<longleftrightarrow> controller cell \<noteq> None \<and> controller cell \<noteq> Some playerId"

text \<open>
  The claim loop of a first flip, from its head. \<open>state\<close> is the object the local variable
  \<open>state\<close> of the call refers to.
\<close>

definition claimLoop :: "board_state \<Rightarrow> string \<Rightarrow> int \<Rightarrow> int \<Rightarrow> playerState \<Rightarrow> cardCell \<Rightarrow> outcome \<times> board_state" where
  "claimLoop st playerId row column state cell =
     (if length (card_val cell) = 0 then (Threw (Error ''card was removed while waiting''), st)
      else if controlledByOther cell playerId then awaitWatch st playerId WaitRetry
      else (case tryClaimCell st row column playerId of
              (True, st1) \<Rightarrow>
                (let (out, st2) =
                   (if length (card_val cell) = 0 then (Threw (Error ''card was removed while waiting''), st1)
                    else if controlledByOther cell playerId then awaitWatch st1 playerId WaitClaimed
                    else (let st2 = onCell st1 row column (\<lambda>c. c\<lparr>faceUp := True, controller := Some playerId\<rparr>);
                              st3 = setState st2 playerId (state\<lparr>firstCard := Some (Pos row column)\<rparr>)
                          in publishAndLook st3 playerId))
                 in (case out of
                       Awaiting wp \<Rightarrow> (out, st2)
                     | _ \<Rightarrow> (out, releaseClaim st2 row column playerId)))
            | (False, st1) \<Rightarrow> awaitWatch st1 playerId WaitRetry))"

text \<open>The loop of rule 1-D, from its condition.\<close>

definition waitLoop :: "board_state \<Rightarrow> string \<Rightarrow> int \<Rightarrow> int \<Rightarrow> playerState \<Rightarrow> cardCell \<Rightarrow> outcome \<times> board_state" where
  "waitLoop st playerId row column state cell =
     (if faceUp cell \<and> controlledByOther cell playerId then awaitWatch st playerId WaitControlled
      else claimLoop st playerId row column state cell)"

text \<open>Rules 1-A and 2-A: no card at the target.\<close>

definition flipNoCard :: "board_state \<Rightarrow> string \<Rightarrow> playerState \<Rightarrow> outcome \<times> board_state" where
  "flipNoCard st playerId state =
     (case firstCard state of
        None \<Rightarrow> (Threw (Error ''invalid card position''), st)
      | Some first \<Rightarrow>
          (case cellAt (board st) (pos_row first) (pos_col first) of
             None \<Rightarrow> (Threw (Error ''invalid card position''), st)
           | Some _ \<Rightarrow>
               (let st1 = onCell st (pos_row first) (pos_col first) (\<lambda>c. c\<lparr>controller := None\<rparr>);
                    st2 = setState st1 playerId (state\<lparr>secondCard := Some NoneCard\<rparr>)
                in case notifyAll st2 of
                     (Some e, st3) \<Rightarrow> (Threw e, st3)
                   | (None, st3) \<Rightarrow> (Threw (Error ''invalid card position''), st3))))"

text \<open>The second flip, rules 2-B to 2-E; \<open>cell\<close> is the target as read before.\<close>

definition secondFlip :: "board_state \<Rightarrow> string \<Rightarrow> int \<Rightarrow> int \<Rightarrow> playerState \<Rightarrow> cardPos \<Rightarrow> cardCell \<Rightarrow> outcome \<times> board_state" where
  "secondFlip st playerId row column state first cell =
     (if faceUp cell \<and> controller cell \<noteq> None then
        (case cellAt (board st) (pos_row first) (pos_col first) of
           None \<Rightarrow> (Threw (Error ''card is controlled by another player''), st)
         | Some _ \<Rightarrow>
             (let st1 = onCell st (pos_row first) (pos_col first) (\<lambda>c. c\<lparr>controller := None\<rparr>);
                  st2 = setState st1 playerId (state\<lparr>secondCard := Some NoneCard\<rparr>)
              in case notifyAll st2 of
                   (Some e, st3) \<Rightarrow> (Threw e, st3)
                 | (None, st3) \<Rightarrow> (Threw (Error ''card is controlled by another player''), st3)))
      else
        (let st1 = onCell st row column (\<lambda>c. c\<lparr>faceUp := True\<rparr>) in
         case cellAt (board st1) (pos_row first) (pos_col first) of
           None \<Rightarrow> (Threw (Error ''first card no longer exists''),
                     setState st1 playerId (state\<lparr>firstCard := None\<rparr>))
         | Some firstCell \<Rightarrow>
             (if card_val cell = card_val firstCell then
                (let st2 = onCell st1 row column (\<lambda>c. c\<lparr>controller := Some playerId\<rparr>);
                     st3 = onCell st2 (pos_row first) (pos_col first) (\<lambda>c. c\<lparr>controller := Some playerId\<rparr>);
                     state1 = state\<lparr>hasMatch := True, secondCard := Some (Pos row column)\<rparr>
                 in publishAndLook (setState st3 playerId state1) playerId)
              else
                (let st2 = onCell st1 row column (\<lambda>c. c\<lparr>controller := None\<rparr>);
                     st3 = onCell st2 (pos_row first) (pos_col first) (\<lambda>c. c\<lparr>controller := None\<rparr>);
                     state1 = state\<lparr>secondCard := Some (Pos row column), hasMatch := False\<rparr>
                 in publishAndLook (setState st3 playerId state1) playerId))))"

text \<open>\<open>flip\<close>, from the call to its first return, throw or await.\<close>

definition flip :: "board_state \<Rightarrow> string \<Rightarrow> int \<Rightarrow> int \<Rightarrow> outcome \<times> board_state" where
  "flip st0 playerId row column =
     (let st1 = (case mapGet (playerStates st0) playerId of
                   None \<Rightarrow> setState st0 playerId idle
                 | Some _ \<Rightarrow> st0)
      in if row < 0 \<or> row \<ge> height st1 \<or> column < 0 \<or> column \<ge> width st1
         then (Threw (Error ''invalid card position''), st1)
         else (case cleanupPreviousMove st1 playerId of
                 (Some e, st2) \<Rightarrow> (Threw e, st2)
               | (None, st2) \<Rightarrow>
                   (let state = (case mapGet (playerStates st2) playerId of Some s \<Rightarrow> s | None \<Rightarrow> idle);
                        st3 = setState st2 playerId state
                    in case cellAt (board st3) row column of
                         None \<Rightarrow> flipNoCard st3 playerId state
                       | Some cell \<Rightarrow>
                           if length (card_val cell) = 0 then flipNoCard st3 playerId state
                           else (case firstCard state of
                                   None \<Rightarrow> waitLoop st3 playerId row column state cell
                                 | Some first \<Rightarrow> secondFlip st3 playerId row column state first cell))))"

text \<open>
  A waiting flip, woken by a notification, continues where it awaited. Its variable \<open>cell\<close>
  still refers to the cell object of its target, read here from the board; \<open>state\<close> is the
  content of the object its variable \<open>state\<close> refers to. No cell at the target means no such
  call can be waiting: \<open>None\<close>.
\<close>

definition flipResume :: "board_state \<Rightarrow> string \<Rightarrow> int \<Rightarrow> int \<Rightarrow> playerState \<Rightarrow> waitPoint \<Rightarrow> (outcome \<times> board_state) option" where
  "flipResume st playerId row column state wp =
     (case cellAt (board st) row column of
        None \<Rightarrow> None
      | Some cell \<Rightarrow>
          Some (case wp of
                  WaitControlled \<Rightarrow>
                    if length (card_val cell) = 0 then (Threw (Error ''card was removed while waiting''), st)
                    else waitLoop st playerId row column state cell
                | WaitRetry \<Rightarrow> claimLoop st playerId row column state cell
                | WaitClaimed \<Rightarrow> claimLoop (releaseClaim st row column playerId) playerId row column state cell))"

subsection \<open>map\<close>

text \<open>
  A call of \<open>map\<close> goes from cell to cell. At a cell whose label is not a key of its table
  \<open>replacements\<close> it calls \<open>f\<close> on the label and awaits the promise; other calls run during
  an await. What a waiting call holds: the row and the cell its two loops stand at, the
  label it read there before the await, which is the key it will store, the value that
  the promise of \<open>f\<close> resolves to, and its table. \<open>f\<close> is taken as a function: its
  promises resolve, none is rejected.
\<close>

record mapWait =
  wait_row :: nat
  wait_cell :: nat
  wait_card :: string
  wait_promise :: string
  wait_replacements :: "(string \<times> string) list"

datatype mapOutcome = Finished outcome | AwaitingF mapWait

text \<open>
  \<open>cell.card = replacements.get(cell.card) ?? cell.card\<close> on the cell at a place of the
  board, with the label that the cell has when the statement runs.
\<close>

definition assignCard :: "board_state \<Rightarrow> nat \<Rightarrow> nat \<Rightarrow> (string \<times> string) list \<Rightarrow> board_state" where
  "assignCard st i j replacements =
     onCell st (int i) (int j)
       (\<lambda>cell. cell\<lparr>card_val := (case mapGet replacements (card_val cell) of
                                      Some v \<Rightarrow> v
                                    | None \<Rightarrow> card_val cell)\<rparr>)"

text \<open>The cells that the two loops visit from cell \<open>j\<close> of row \<open>i\<close> on, in their order.\<close>

definition cellsFrom :: "cardCell list list \<Rightarrow> nat \<Rightarrow> nat \<Rightarrow> (nat \<times> nat) list" where
  "cellsFrom b i j =
     (if i < length b then map (Pair i) [j..<length (b ! i)] else []) @
     concat (map (\<lambda>i'. map (Pair i') [0..<length (b ! i')]) [Suc i..<length b])"

text \<open>
  The loops over the cells still to visit, up to the next await of \<open>f\<close>, or to the end:
  \<open>notifyAll\<close>, \<open>look\<close>, \<open>checkRepFunctions\<close>, return.
\<close>

fun sweep :: "board_state \<Rightarrow> string \<Rightarrow> (string \<Rightarrow> string) \<Rightarrow> (string \<times> string) list
    \<Rightarrow> (nat \<times> nat) list \<Rightarrow> mapOutcome \<times> board_state" where
  "sweep st playerId f replacements [] =
     (case publishAndLook st playerId of (out, st1) \<Rightarrow> (Finished out, st1))"
| "sweep st playerId f replacements ((i, j) # cells) =
     (case cellAt (board st) (int i) (int j) of
        None \<Rightarrow> sweep st playerId f replacements cells
      | Some cell \<Rightarrow>
          if length (card_val cell) = 0 then sweep st playerId f replacements cells
          else if \<not> mapHas replacements (card_val cell)
          then (AwaitingF \<lparr>wait_row = i, wait_cell = j, wait_card = card_val cell,
                            wait_promise = f (card_val cell), wait_replacements = replacements\<rparr>, st)
          else sweep (assignCard st i j replacements) playerId f replacements cells)"

text \<open>A call of \<open>map\<close>, up to its first await of \<open>f\<close> or to its end.\<close>

definition map_board :: "board_state \<Rightarrow> string \<Rightarrow> (string \<Rightarrow> string) \<Rightarrow> mapOutcome \<times> board_state" where
  "map_board st playerId f = sweep st playerId f [] (cellsFrom (board st) 0 0)"

text \<open>
  A waiting call of \<open>map\<close> continues, on the board as it is by then: it stores the value
  of the promise under the label it read before the await, assigns to the cell it stands
  at, and goes on with the cells after it.
\<close>

definition mapResume :: "board_state \<Rightarrow> string \<Rightarrow> (string \<Rightarrow> string) \<Rightarrow> mapWait \<Rightarrow> mapOutcome \<times> board_state" where
  "mapResume st playerId f w =
     (let replacements = mapSet (wait_card w) (wait_promise w) (wait_replacements w);
          st1 = assignCard st (wait_row w) (wait_cell w) replacements
      in sweep st1 playerId f replacements (cellsFrom (board st1) (wait_row w) (Suc (wait_cell w))))"

section \<open>Loading a board\<close>

text \<open>The private constructor: every card face down and uncontrolled, then \<open>checkRep\<close>.\<close>

definition newBoard :: "int \<Rightarrow> int \<Rightarrow> string list list \<Rightarrow> error + board_state" where
  "newBoard h w cards =
     (let st = \<lparr>height = h, width = w,
                board = map (map (\<lambda>c. \<lparr>card_val = c, faceUp = False, controller = None\<rparr>)) cards,
                playerStates = [], listeners = [], claimLocks = [], delivered = []\<rparr>
      in case checkRep st of
           Some m \<Rightarrow> Inl (AssertionError m)
         | None \<Rightarrow> Inr st)"

text \<open>
  The two loops that cut the cards into rows and count each card in \<open>cardCounts\<close>;
  \<open>base\<close> is \<open>i * width\<close>.
\<close>

fun fillRow :: "string list \<Rightarrow> nat \<Rightarrow> nat list \<Rightarrow> (string \<times> nat) list
    \<Rightarrow> error + (string list \<times> (string \<times> nat) list)" where
  "fillRow allCards base [] cardCounts = Inr ([], cardCounts)"
| "fillRow allCards base (j # js) cardCounts =
     (if base + j < length allCards \<and> length (allCards ! (base + j)) \<noteq> 0 then
        (let card = allCards ! (base + j);
             counts1 = mapSet card ((case mapGet cardCounts card of Some n \<Rightarrow> n | None \<Rightarrow> 0) + 1) cardCounts
         in case fillRow allCards base js counts1 of
              Inl e \<Rightarrow> Inl e
            | Inr (row, counts2) \<Rightarrow> Inr (card # row, counts2))
      else Inl (Error (''missing card at position '' @ show_nat (base + j))))"

fun fillRows :: "string list \<Rightarrow> nat \<Rightarrow> nat list \<Rightarrow> (string \<times> nat) list
    \<Rightarrow> error + (string list list \<times> (string \<times> nat) list)" where
  "fillRows allCards w [] cardCounts = Inr ([], cardCounts)"
| "fillRows allCards w (i # is) cardCounts =
     (case fillRow allCards (i * w) [0..<w] cardCounts of
        Inl e \<Rightarrow> Inl e
      | Inr (row, counts1) \<Rightarrow>
          (case fillRows allCards w is counts1 of
             Inl e \<Rightarrow> Inl e
           | Inr (rows, counts2) \<Rightarrow> Inr (row # rows, counts2)))"

definition fileLines :: "string \<Rightarrow> string list" where
  "fileLines content = split_on CHR ''\<newline>'' (trim content)"

definition firstLineOf :: "string \<Rightarrow> string" where
  "firstLineOf content = (case fileLines content of [] \<Rightarrow> [] | l # _ \<Rightarrow> trim l)"

definition allCardsOf :: "string \<Rightarrow> string list" where
  "allCardsOf content = filter (\<lambda>line. length line > 0) (map trim (tl (fileLines content)))"

definition expectedMessage :: "int \<Rightarrow> int \<Rightarrow> int \<Rightarrow> nat \<Rightarrow> string" where
  "expectedMessage totalCards h w actual =
     ''expected '' @ show_int totalCards @ '' cards ('' @ show_int h @ ''x'' @ show_int w
       @ ''), but got '' @ show_nat actual @ '' cards''"

definition oddMessage :: "string \<Rightarrow> nat \<Rightarrow> string" where
  "oddMessage c n =
     ''card '' @ [CHR 0x22] @ c @ [CHR 0x22] @ '' appears '' @ show_nat n
       @ '' times, which is not a multiple of 2''"

text \<open>
  \<open>parseFromFile\<close> on the text that was read from the file.

  With two exact dimensions whose product is below \<open>2^53\<close>, every number of the function
  is an exact integer below \<open>2^53\<close>, printed in a template literal as its decimal digits.
  Otherwise the product \<open>totalCards\<close> is a double of \<open>2^53\<close> or more, an even integer or
  an infinity: an infinity fails the parity check (\<open>Infinity % 2\<close> is \<open>NaN\<close>), and an even
  integer of that size, which no length of an array is, fails the count check, with a
  message that has the rounded numbers in the number format of the host. The model does
  not compute that rounding and that format: the message thrown there, a function of the
  two parts of the first line and of the number of cards, is the parameter \<open>host\<close>.
\<close>

definition parseFromFile :: "(string \<Rightarrow> string \<Rightarrow> nat \<Rightarrow> string) \<Rightarrow> string \<Rightarrow> error + board_state" where
  "parseFromFile host content =
     (let lines = fileLines content;
          firstLine = firstLineOf content
      in if length firstLine = 0 then Inl (Error ''empty board file'')
         else (case split_on CHR ''x'' firstLine of
                 [p0, p1] \<Rightarrow>
                   if length (trim p0) = 0 \<or> length (trim p1) = 0
                   then Inl (Error ''invalid board dimensions format'')
                   else
                     (let height = parseInt (trim p0);
                          width = parseInt (trim p1)
                      in if isNaN height \<or> isNaN width \<or> atMost0 height \<or> atMost0 width
                         then Inl (Error ''invalid board dimensions'')
                         else if lengthBelowSucc (length lines) height
                         then Inl (Error ''insufficient board rows'')
                         else
                           (let allCards = allCardsOf content
                            in case (height, width) of
                                 (Exact h, Exact w) \<Rightarrow>
                                   if h * w < 2 ^ 53 then
                                     (let totalCards = h * w
                                      in if totalCards mod 2 \<noteq> 0
                                         then Inl (Error ''total number of cards must be even'')
                                         else if int (length allCards) \<noteq> totalCards
                                         then Inl (Error (expectedMessage totalCards h w (length allCards)))
                                         else (case fillRows allCards (nat w) [0..<nat h] [] of
                                                 Inl e \<Rightarrow> Inl e
                                               | Inr (cards, cardCounts) \<Rightarrow>
                                                   (case find (\<lambda>(c, n). n mod 2 \<noteq> 0) cardCounts of
                                                      Some (c, n) \<Rightarrow> Inl (Error (oddMessage c n))
                                                    | None \<Rightarrow> newBoard h w cards)))
                                   else Inl (Error (host (trim p0) (trim p1) (length allCards)))
                               | _ \<Rightarrow> Inl (Error (host (trim p0) (trim p1) (length allCards)))))
               | _ \<Rightarrow> Inl (Error ''invalid board dimensions format'')))"

section \<open>The invariant of the representation\<close>

text \<open>
  The invariant of a cell and of a board in the words of the specification: a controller
  only on a face-up card, a cell without a card face down and uncontrolled, positive
  dimensions and a rectangular grid of that size.
\<close>

definition cell_ok :: "cardCell \<Rightarrow> bool" where
  "cell_ok c \<longleftrightarrow>
     (controller c \<noteq> None \<longrightarrow> faceUp c) \<and> (card_val c = [] \<longrightarrow> \<not> faceUp c \<and> controller c = None)"

definition board_inv :: "board_state \<Rightarrow> bool" where
  "board_inv st \<longleftrightarrow>
     0 < height st \<and> 0 < width st \<and> int (length (board st)) = height st \<and>
     (\<forall>row \<in> set (board st). int (length row) = width st \<and> (\<forall>cell \<in> set row. cell_ok cell))"

section \<open>What a publication is\<close>

text \<open>
  Publishing a change, in the words of the specification: the whole list of waiters is
  drained and each waiter is fulfilled with a fresh snapshot for its own viewer.
\<close>

definition publish :: "board_state \<Rightarrow> board_state" where
  "publish st = st\<lparr>listeners := [], delivered := delivered st @ map (\<lambda>w. (w, snapshot st w)) (listeners st)\<rparr>"

text \<open>The second state is the first after a publication, as far as the waiters go.\<close>

definition published :: "board_state \<Rightarrow> board_state \<Rightarrow> bool" where
  "published st st' \<longleftrightarrow>
     listeners st' = [] \<and>
     delivered st' = delivered st @ map (\<lambda>w. (w, snapshot st' w)) (listeners st)"

section \<open>What an operation must leave alone\<close>

text \<open>The dimensions, the shape of the grid and the claim registry of a board.\<close>

definition frame :: "board_state \<Rightarrow> int \<times> int \<times> nat list \<times> (string \<times> string) list" where
  "frame st = (height st, width st, map length (board st), claimLocks st)"

section \<open>Boards used as examples\<close>

text \<open>
  A host for the examples: its message stands for the one that the program throws on
  numbers of \<open>2^53\<close> or more.
\<close>

definition exampleHost :: "string \<Rightarrow> string \<Rightarrow> nat \<Rightarrow> string" where
  "exampleHost p0 p1 actual =
     ''numbers of the host: '' @ p0 @ ''x'' @ p1 @ '', '' @ show_nat actual @ '' cards''"

text \<open>The board of the file \<open>2x2, A, B, B, A\<close>, and the same board after some flips.\<close>

definition board2x2 :: board_state where
  "board2x2 =
     \<lparr>height = 2, width = 2,
      board = [[\<lparr>card_val = ''A'', faceUp = False, controller = None\<rparr>,
                \<lparr>card_val = ''B'', faceUp = False, controller = None\<rparr>],
               [\<lparr>card_val = ''B'', faceUp = False, controller = None\<rparr>,
                \<lparr>card_val = ''A'', faceUp = False, controller = None\<rparr>]],
      playerStates = [], listeners = [], claimLocks = [], delivered = []\<rparr>"

text \<open>
  After \<open>p2\<close> has matched and lost the two \<open>B\<close> cards and turned up the \<open>A\<close> at (0,0), and
  \<open>p1\<close> has turned up the \<open>A\<close> at (1,1).
\<close>

definition boardHolding :: board_state where
  "boardHolding =
     \<lparr>height = 2, width = 2,
      board = [[\<lparr>card_val = ''A'', faceUp = True, controller = Some ''p2''\<rparr>,
                \<lparr>card_val = [], faceUp = False, controller = None\<rparr>],
               [\<lparr>card_val = [], faceUp = False, controller = None\<rparr>,
                \<lparr>card_val = ''A'', faceUp = True, controller = Some ''p1''\<rparr>]],
      playerStates = [(''p2'', \<lparr>firstCard = Some (Pos 0 0), secondCard = None, hasMatch = False\<rparr>),
                      (''p1'', \<lparr>firstCard = Some (Pos 1 1), secondCard = None, hasMatch = False\<rparr>)],
      listeners = [''w''], claimLocks = [], delivered = []\<rparr>"

text \<open>After \<open>p1\<close> has turned up the \<open>A\<close> at (0,0) of the fresh board, with \<open>w\<close> watching.\<close>

definition boardFirst :: board_state where
  "boardFirst =
     \<lparr>height = 2, width = 2,
      board = [[\<lparr>card_val = ''A'', faceUp = True, controller = Some ''p1''\<rparr>,
                \<lparr>card_val = ''B'', faceUp = False, controller = None\<rparr>],
               [\<lparr>card_val = ''B'', faceUp = False, controller = None\<rparr>,
                \<lparr>card_val = ''A'', faceUp = False, controller = None\<rparr>]],
      playerStates = [(''p1'', \<lparr>firstCard = Some (Pos 0 0), secondCard = None, hasMatch = False\<rparr>)],
      listeners = [''w''], claimLocks = [], delivered = []\<rparr>"

text \<open>After \<open>p1\<close> has matched the two \<open>A\<close> cards at (0,0) and (1,1).\<close>

definition boardMatched :: board_state where
  "boardMatched =
     \<lparr>height = 2, width = 2,
      board = [[\<lparr>card_val = ''A'', faceUp = True, controller = Some ''p1''\<rparr>,
                \<lparr>card_val = ''B'', faceUp = False, controller = None\<rparr>],
               [\<lparr>card_val = ''B'', faceUp = False, controller = None\<rparr>,
                \<lparr>card_val = ''A'', faceUp = True, controller = Some ''p1''\<rparr>]],
      playerStates = [(''p1'', \<lparr>firstCard = Some (Pos 0 0), secondCard = Some (Pos 1 1), hasMatch = True\<rparr>)],
      listeners = [], claimLocks = [], delivered = []\<rparr>"

text \<open>
  After \<open>p1\<close> has turned up (0,0) and (0,1), which do not match, then \<open>p2\<close> has turned up
  (0,1) and (1,1), which do not match either: (0,1) is in the state of both players.
\<close>

definition boardShared :: board_state where
  "boardShared =
     \<lparr>height = 2, width = 2,
      board = [[\<lparr>card_val = ''A'', faceUp = True, controller = None\<rparr>,
                \<lparr>card_val = ''B'', faceUp = True, controller = None\<rparr>],
               [\<lparr>card_val = ''B'', faceUp = False, controller = None\<rparr>,
                \<lparr>card_val = ''A'', faceUp = True, controller = None\<rparr>]],
      playerStates = [(''p1'', \<lparr>firstCard = Some (Pos 0 0), secondCard = Some (Pos 0 1), hasMatch = False\<rparr>),
                      (''p2'', \<lparr>firstCard = Some (Pos 0 1), secondCard = Some (Pos 1 1), hasMatch = False\<rparr>)],
      listeners = [], claimLocks = [], delivered = []\<rparr>"

text \<open>Two functions from cards to cards, and a function that gives no card.\<close>

definition suffix1 :: "string \<Rightarrow> string" where
  "suffix1 c = c @ ''_1''"

definition suffix2 :: "string \<Rightarrow> string" where
  "suffix2 c = c @ ''_2''"

definition blank :: "string \<Rightarrow> string" where
  "blank c = []"

text \<open>
  A call of \<open>map\<close> as its caller has it: not made yet, waiting for \<open>f\<close>, or ended. In one
  turn the call is made, or continues, up to its next await or to its end.
\<close>

datatype mapCall = NotCalled | Waiting mapWait | Ended outcome

fun turn :: "board_state \<Rightarrow> string \<Rightarrow> (string \<Rightarrow> string) \<Rightarrow> mapCall \<Rightarrow> mapCall \<times> board_state" where
  "turn st p f NotCalled =
     (case map_board st p f of
        (Finished out, st1) \<Rightarrow> (Ended out, st1)
      | (AwaitingF w, st1) \<Rightarrow> (Waiting w, st1))"
| "turn st p f (Waiting w) =
     (case mapResume st p f w of
        (Finished out, st1) \<Rightarrow> (Ended out, st1)
      | (AwaitingF w1, st1) \<Rightarrow> (Waiting w1, st1))"
| "turn st p f (Ended out) = (Ended out, st)"

text \<open>
  Two calls of \<open>map\<close> on one board, taking turns as a schedule says: \<open>True\<close> gives the turn
  to the first call, \<open>False\<close> to the second.
\<close>

fun interleave :: "string \<times> (string \<Rightarrow> string) \<Rightarrow> string \<times> (string \<Rightarrow> string) \<Rightarrow> bool list
    \<Rightarrow> mapCall \<times> mapCall \<times> board_state \<Rightarrow> mapCall \<times> mapCall \<times> board_state" where
  "interleave a b [] s = s"
| "interleave a b (t # ts) (c1, c2, st) =
     (if t then (case turn st (fst a) (snd a) c1 of (c, st1) \<Rightarrow> interleave a b ts (c, c2, st1))
      else (case turn st (fst b) (snd b) c2 of (c, st1) \<Rightarrow> interleave a b ts (c1, c, st1)))"

text \<open>
  The two calls \<open>map(p1, c => c + '_1')\<close> and \<open>map(p2, c => c + '_2')\<close> made one after the
  other on the board of the file \<open>2x2, A, B, B, A\<close>, each continuing in its turn when its
  promise has resolved: after the first call has continued once, and after both have
  ended.
\<close>

definition duringMap :: "mapCall \<times> mapCall \<times> board_state" where
  "duringMap =
     interleave (''p1'', suffix1) (''p2'', suffix2) [True, True] (NotCalled, NotCalled, board2x2)"

definition afterTwoMaps :: "mapCall \<times> mapCall \<times> board_state" where
  "afterTwoMaps =
     interleave (''p1'', suffix1) (''p2'', suffix2)
       [True, False, True, False, True, False, False, False] (NotCalled, NotCalled, board2x2)"

text \<open>The labels of a board, row by row.\<close>

definition labels :: "board_state \<Rightarrow> string list list" where
  "labels st = map (map card_val) (board st)"

section \<open>What a well-formed board file is\<close>

text \<open>
  The first line parses as \<open>{H}x{W}\<close>: it splits at \<open>x\<close> into two parts that are not blank
  and that \<open>parseInt\<close> reads as numbers; \<open>H\<close> and \<open>W\<close> are the integers that the digits
  denote.
\<close>

fun denoted :: "number \<Rightarrow> int option" where
  "denoted NaN = None"
| "denoted (Exact i) = Some i"
| "denoted (Rounded i) = Some i"

definition dimensionsOf :: "string \<Rightarrow> (int \<times> int) option" where
  "dimensionsOf firstLine =
     (case split_on CHR ''x'' firstLine of
        [p0, p1] \<Rightarrow>
          if trim p0 = [] \<or> trim p1 = [] then None
          else (case (denoted (parseInt (trim p0)), denoted (parseInt (trim p1))) of
                  (Some h, Some w) \<Rightarrow> Some (h, w)
                | _ \<Rightarrow> None)
      | _ \<Rightarrow> None)"

text \<open>
  The message that the host decides, for a file whose first line has two parts: with
  numbers of \<open>2^53\<close> or more, where the doubles of the program round.
\<close>

definition bigNumbersMessage :: "(string \<Rightarrow> string \<Rightarrow> nat \<Rightarrow> string) \<Rightarrow> string \<Rightarrow> string" where
  "bigNumbersMessage host content =
     (case split_on CHR ''x'' (firstLineOf content) of
        [p0, p1] \<Rightarrow> host (trim p0) (trim p1) (length (allCardsOf content))
      | _ \<Rightarrow> [])"

text \<open>Counting one card in \<open>cardCounts\<close>.\<close>

definition countCard :: "string \<Rightarrow> (string \<times> nat) list \<Rightarrow> (string \<times> nat) list" where
  "countCard c counts = mapSet c ((case mapGet counts c of Some n \<Rightarrow> n | None \<Rightarrow> 0) + 1) counts"

text \<open>A card of the file, as the constructor lays it: face down, uncontrolled.\<close>

definition faceDown :: "string \<Rightarrow> cardCell" where
  "faceDown c = \<lparr>card_val = c, faceUp = False, controller = None\<rparr>"

text \<open>The count of a card in \<open>cardCounts\<close>, zero when it has no entry.\<close>

definition cnt :: "(string \<times> nat) list \<Rightarrow> string \<Rightarrow> nat" where
  "cnt m k = (case mapGet m k of Some n \<Rightarrow> n | None \<Rightarrow> 0)"

section \<open>The states a board goes through\<close>

text \<open>
  A function from cards to cards, as \<open>map\<close> asks of its argument: a card, that is a
  non-empty label, is given a card.
\<close>

definition cardFunction :: "(string \<Rightarrow> string) \<Rightarrow> bool" where
  "cardFunction f \<longleftrightarrow> (\<forall>c. c \<noteq> [] \<longrightarrow> f c \<noteq> [])"

text \<open>
  What a call of \<open>map\<close> with \<open>f\<close> can hold while it waits: what its start left, on some
  board, or what it held before and one continuation left, on some board.
\<close>

inductive waiting :: "(string \<Rightarrow> string) \<Rightarrow> mapWait \<Rightarrow> bool" for f :: "string \<Rightarrow> string" where
  called: "map_board st p f = (AwaitingF w, st') \<Longrightarrow> waiting f w"
| continued: "waiting f w \<Longrightarrow> mapResume st p f w = (AwaitingF w', st') \<Longrightarrow> waiting f w'"

text \<open>
  One step of a board: a call of a public operation up to its return, throw or await, a
  waiting flip or a waiting \<open>map\<close> that continues up to its return, throw or next await,
  or the cleanup taken by itself. Between the steps of one call, steps of other calls may
  be taken. \<open>map\<close> is taken with a function from cards to cards.
\<close>

inductive step :: "board_state \<Rightarrow> board_state \<Rightarrow> bool" where
  looked: "look st p = r \<Longrightarrow> step st st"
| flipped: "flip st p row col = (out, st') \<Longrightarrow> step st st'"
| resumed: "flipResume st p row col s wp = Some (out, st') \<Longrightarrow> step st st'"
| mapped: "cardFunction f \<Longrightarrow> map_board st p f = (mout, st') \<Longrightarrow> step st st'"
| mapResumed: "cardFunction f \<Longrightarrow> waiting f w \<Longrightarrow> mapResume st p f w = (mout, st') \<Longrightarrow> step st st'"
| watched: "watch st p = (e, st') \<Longrightarrow> step st st'"
| cleaned: "cleanupPreviousMove st p = (e, st') \<Longrightarrow> step st st'"

text \<open>The states of a board: loaded from a file, then any number of steps.\<close>

inductive reachable :: "board_state \<Rightarrow> bool" where
  loaded: "parseFromFile host content = Inr st \<Longrightarrow> reachable st"
| stepped: "reachable st \<Longrightarrow> step st st' \<Longrightarrow> reachable st'"

text \<open>
  What the proofs carry along besides the invariant of the cells: no claim is held
  between steps, and the first card of a player who has turned up one card and no second
  is a cell of the board that this player controls, unless its card is gone.
\<close>

definition holdsFirst_ok :: "board_state \<Rightarrow> bool" where
  "holdsFirst_ok st \<longleftrightarrow>
     (\<forall>p s first. mapGet (playerStates st) p = Some s \<and> firstCard s = Some first \<and> secondCard s = None \<longrightarrow>
        (\<exists>x. cellAt (board st) (pos_row first) (pos_col first) = Some x \<and>
             (card_val x = [] \<or> controller x = Some p)))"

definition state_inv :: "board_state \<Rightarrow> bool" where
  "state_inv st \<longleftrightarrow> board_inv st \<and> claimLocks st = [] \<and> holdsFirst_ok st"

text \<open>
  What the proofs carry along for a waiting \<open>map\<close>: no key and no value of its table is
  the empty label, the label it read is a card, and its promise is the one of \<open>f\<close> on that
  label.
\<close>

definition tableOk :: "(string \<times> string) list \<Rightarrow> bool" where
  "tableOk t \<longleftrightarrow> (\<forall>(k, v) \<in> set t. k \<noteq> [] \<and> v \<noteq> [])"

definition waitOk :: "(string \<Rightarrow> string) \<Rightarrow> mapWait \<Rightarrow> bool" where
  "waitOk f w \<longleftrightarrow> tableOk (wait_replacements w) \<and> wait_card w \<noteq> [] \<and> wait_promise w = f (wait_card w)"

definition core :: "board_state \<Rightarrow>
    int \<times> int \<times> cardCell list list \<times> (string \<times> playerState) list \<times> (string \<times> string) list" where
  "core st = (height st, width st, board st, playerStates st, claimLocks st)"

section \<open>Basic facts\<close>

subsection \<open>Maps, cells and the representation check\<close>

lemma mapGet_mapSet: "mapGet (mapSet k v m) k' = (if k' = k then Some v else mapGet m k')"
  by (induction m) (auto simp: mapGet_def)

lemma mapHas_mapGet: "mapHas m k \<longleftrightarrow> mapGet m k \<noteq> None"
  by (induction m) (auto simp: mapHas_def mapGet_def)

lemma mapDelete_mapSet_fresh: "\<not> mapHas m k \<Longrightarrow> mapDelete k (mapSet k v m) = m"
  by (induction m) (auto simp: mapHas_def mapDelete_def)

lemma mapGet_mapDelete: "mapGet (mapDelete k m) k' = (if k' = k then None else mapGet m k')"
  by (induction m) (auto simp: mapGet_def mapDelete_def)

lemma mapSet_fresh: "\<not> mapHas m k \<Longrightarrow> mapSet k v m = m @ [(k, v)]"
  by (induction m) (auto simp: mapHas_def)

lemma cellAt_Some_iff:
  "cellAt b r c = Some x \<longleftrightarrow>
     0 \<le> r \<and> r < int (length b) \<and> 0 \<le> c \<and> c < int (length (b ! nat r)) \<and> x = b ! nat r ! nat c"
  by (auto simp: cellAt_def Let_def)

lemma cellAt_in_set: "cellAt b r c = Some x \<Longrightarrow> \<exists>row \<in> set b. x \<in> set row"
  by (auto simp: cellAt_Some_iff) (metis nat_less_iff nth_mem)

lemma length_modCell [simp]: "length (modCell b r c f) = length b"
  by (simp add: modCell_def split: option.splits)

lemma map_length_modCell [simp]: "map length (modCell b r c f) = map length b"
  by (auto simp: modCell_def cellAt_Some_iff list_eq_iff_nth_eq nth_list_update split: option.splits)

lemma cellAt_modCell:
  "cellAt (modCell b r c f) r' c' =
     (if r' = r \<and> c' = c then map_option f (cellAt b r c) else cellAt b r' c')"
proof (cases "cellAt b r c")
  case None
  then show ?thesis by (simp add: modCell_def)
next
  case (Some x)
  then have b: "0 \<le> r" "r < int (length b)" "0 \<le> c" "c < int (length (b ! nat r))" "x = b ! nat r ! nat c"
    by (auto simp: cellAt_Some_iff)
  have m: "modCell b r c f = b[nat r := (b ! nat r)[nat c := f x]]"
    using Some by (simp add: modCell_def)
  show ?thesis
  proof (cases "0 \<le> r' \<and> r' < int (length b)")
    case False
    then show ?thesis using b Some by (auto simp: cellAt_def m)
  next
    case True
    show ?thesis
    proof (cases "r' = r")
      case True
      then show ?thesis using b Some
        by (auto simp: cellAt_def m Let_def nth_list_update nat_eq_iff)
    next
      case False
      then have "nat r' \<noteq> nat r" using True b by auto
      then show ?thesis using True False b
        by (auto simp: cellAt_def m Let_def nth_list_update)
    qed
  qed
qed

lemma set_modCell_rows:
  assumes "row \<in> set (modCell b r c f)"
  shows "row \<in> set b \<or> (\<exists>x old. cellAt b r c = Some x \<and> old \<in> set b \<and> row = old[nat c := f x])"
proof (cases "cellAt b r c")
  case None
  then show ?thesis using assms by (simp add: modCell_def)
next
  case (Some x)
  then have "row \<in> insert ((b ! nat r)[nat c := f x]) (set b)"
    using assms set_update_subset_insert by (fastforce simp: modCell_def)
  moreover have "b ! nat r \<in> set b" using Some by (auto simp: cellAt_Some_iff nat_less_iff)
  ultimately show ?thesis using Some by auto
qed

lemma firstFailure_None: "firstFailure chk xs = None \<longleftrightarrow> (\<forall>x \<in> set xs. chk x = None)"
  by (induction xs) (auto split: option.splits)

lemma checkCell_None: "checkCell c = None \<longleftrightarrow> cell_ok c"
  by (auto simp: checkCell_def cell_ok_def)

lemma checkRepFunctions_None: "checkRepFunctions st = None \<longleftrightarrow> board_inv st"
  by (auto simp: checkRepFunctions_def board_inv_def checkRow_def firstFailure_None checkCell_None)

lemma look_ok: "board_inv st \<Longrightarrow> look st pid = Inr (snapshot st pid)"
  using checkRepFunctions_None [of st] by (simp add: look_def)

subsection \<open>What look shows\<close>

text \<open>
  C1. The specification has \<open>look\<close> render a face-down card as \<open>down\<close>, and so do the
  tests of the repository (a freshly loaded board shows only \<open>down\<close> lines). The loop body
  of \<open>look\<close> has no branch for a face-down card: every cell with a card that is not the
  viewer's face-up card is rendered \<open>up {card}\<close>. On the board loaded from the file
  \<open>2x2, A, B, B, A\<close>, before any flip, \<open>look\<close> returns \<open>up A, up B, up B, up A\<close>
  below the header, not four \<open>down\<close> lines.
\<close>

theorem look_fresh_board_shows_cards:
  "(case parseFromFile host ''2x2\<newline>A\<newline>B\<newline>B\<newline>A'' of
      Inl e \<Rightarrow> False
    | Inr st \<Rightarrow>
        look st ''p1'' = Inr ''2x2\<newline>up A\<newline>up B\<newline>up B\<newline>up A'' \<and>
        look st ''p1'' \<noteq> Inr ''2x2\<newline>down\<newline>down\<newline>down\<newline>down'')"
  by code_simp

subsection \<open>Publishing and single updates\<close>

lemma snapshot_cong:
  "height st' = height st \<Longrightarrow> width st' = width st \<Longrightarrow> board st' = board st
   \<Longrightarrow> snapshot st' pid = snapshot st pid"
  by (simp add: snapshot_def)

lemma board_inv_cong:
  "height st' = height st \<Longrightarrow> width st' = width st \<Longrightarrow> board st' = board st
   \<Longrightarrow> board_inv st' = board_inv st"
  by (simp add: board_inv_def)

lemma notifyAll_ok:
  assumes "board_inv st"
  shows "notifyAll st = (None, publish st)"
proof -
  have "board_inv (st\<lparr>listeners := []\<rparr>)"
    using assms by (simp add: board_inv_def)
  then have "look (st\<lparr>listeners := []\<rparr>) [] = Inr (snapshot (st\<lparr>listeners := []\<rparr>) [])"
    by (rule look_ok)
  moreover have "\<And>w. snapshot (st\<lparr>listeners := []\<rparr>) w = snapshot st w"
    by (simp add: snapshot_def)
  ultimately show ?thesis
    by (simp add: notifyAll_def publish_def Let_def)
qed

lemma board_inv_publish [simp]: "board_inv (publish st) = board_inv st"
  by (simp add: publish_def board_inv_def)

lemma snapshot_publish [simp]: "snapshot (publish st) pid = snapshot st pid"
  by (simp add: publish_def snapshot_def)

lemma publish_fields [simp]:
  "height (publish st) = height st" "width (publish st) = width st"
  "board (publish st) = board st" "playerStates (publish st) = playerStates st"
  "claimLocks (publish st) = claimLocks st" "listeners (publish st) = []"
  "delivered (publish st) = delivered st @ map (\<lambda>w. (w, snapshot st w)) (listeners st)"
  by (simp_all add: publish_def)

lemma publishAndLook_ok:
  assumes "board_inv st"
  shows "publishAndLook st pid = (Returned (snapshot st pid), publish st)"
proof -
  have "board_inv (publish st)" using assms by simp
  then have "look (publish st) pid = Inr (snapshot st pid)" "checkRepFunctions (publish st) = None"
    by (simp_all add: look_ok checkRepFunctions_None)
  then show ?thesis
    by (simp add: publishAndLook_def notifyAll_ok [OF assms])
qed

lemma setState_fields [simp]:
  "height (setState st p s) = height st" "width (setState st p s) = width st"
  "board (setState st p s) = board st" "claimLocks (setState st p s) = claimLocks st"
  "listeners (setState st p s) = listeners st" "delivered (setState st p s) = delivered st"
  "playerStates (setState st p s) = mapSet p s (playerStates st)"
  by (simp_all add: setState_def)

lemma onCell_fields [simp]:
  "height (onCell st r c f) = height st" "width (onCell st r c f) = width st"
  "board (onCell st r c f) = modCell (board st) r c f" "claimLocks (onCell st r c f) = claimLocks st"
  "listeners (onCell st r c f) = listeners st" "delivered (onCell st r c f) = delivered st"
  "playerStates (onCell st r c f) = playerStates st"
  by (simp_all add: onCell_def)

lemma board_inv_setState [simp]: "board_inv (setState st p s) = board_inv st"
  by (simp add: board_inv_def)

lemma snapshot_setState [simp]: "snapshot (setState st p s) pid = snapshot st pid"
  by (simp add: snapshot_def)

lemma board_inv_onCell:
  assumes "board_inv st" and "\<And>x. cellAt (board st) r c = Some x \<Longrightarrow> cell_ok x \<Longrightarrow> cell_ok (f x)"
  shows "board_inv (onCell st r c f)"
proof -
  have "int (length row) = width st \<and> (\<forall>cell \<in> set row. cell_ok cell)"
    if "row \<in> set (modCell (board st) r c f)" for row
  proof -
    from set_modCell_rows [OF that] show ?thesis
    proof
      assume "row \<in> set (board st)"
      then show ?thesis using assms(1) by (simp add: board_inv_def)
    next
      assume "\<exists>x old. cellAt (board st) r c = Some x \<and> old \<in> set (board st) \<and> row = old[nat c := f x]"
      then obtain x old where x: "cellAt (board st) r c = Some x" and old: "old \<in> set (board st)"
        and row: "row = old[nat c := f x]" by blast
      have "cell_ok x" using cellAt_in_set [OF x] assms(1) by (auto simp: board_inv_def)
      then have "cell_ok (f x)" using assms(2) x by blast
      moreover have "\<forall>cell \<in> set old. cell_ok cell" "int (length old) = width st"
        using old assms(1) by (auto simp: board_inv_def)
      ultimately show ?thesis
        unfolding row using set_update_subset_insert [of old "nat c" "f x"] by auto
    qed
  qed
  then show ?thesis using assms(1) by (simp add: board_inv_def)
qed

subsection \<open>Claiming and releasing\<close>

lemma tryClaimCell_fresh:
  "\<not> mapHas (claimLocks st) (cellKey r c) \<Longrightarrow>
   tryClaimCell st r c p = (True, st\<lparr>claimLocks := mapSet (cellKey r c) p (claimLocks st)\<rparr>)"
  by (simp add: tryClaimCell_def)

lemma tryClaimCell_taken:
  "mapHas (claimLocks st) (cellKey r c) \<Longrightarrow> tryClaimCell st r c p = (False, st)"
  by (simp add: tryClaimCell_def)

lemma releaseClaim_fields [simp]:
  "height (releaseClaim st r c p) = height st" "width (releaseClaim st r c p) = width st"
  "board (releaseClaim st r c p) = board st" "playerStates (releaseClaim st r c p) = playerStates st"
  "listeners (releaseClaim st r c p) = listeners st" "delivered (releaseClaim st r c p) = delivered st"
  by (simp_all add: releaseClaim_def Let_def)

lemma releaseClaim_after_claim:
  assumes "\<not> mapHas (claimLocks st) (cellKey r c)"
    and "claimLocks st1 = mapSet (cellKey r c) p (claimLocks st)"
  shows "claimLocks (releaseClaim st1 r c p) = claimLocks st"
  using assms by (simp add: releaseClaim_def Let_def mapGet_mapSet mapDelete_mapSet_fresh)

lemma watch_fields [simp]:
  "height (snd (watch st p)) = height st" "width (snd (watch st p)) = width st"
  "board (snd (watch st p)) = board st" "playerStates (snd (watch st p)) = playerStates st"
  "claimLocks (snd (watch st p)) = claimLocks st" "listeners (snd (watch st p)) = listeners st @ [p]"
  "delivered (snd (watch st p)) = delivered st"
  by (simp_all add: watch_def Let_def)

lemma awaitWatch_state: "snd (awaitWatch st p wp) = snd (watch st p)"
  by (simp add: awaitWatch_def split: prod.splits option.splits)

lemma awaitWatch_outcome: "fst (awaitWatch st p wp) = Awaiting wp' \<Longrightarrow> wp' = wp"
  by (auto simp: awaitWatch_def split: prod.splits option.splits)

lemma notifyAll_fields [simp]:
  "height (snd (notifyAll st)) = height st" "width (snd (notifyAll st)) = width st"
  "board (snd (notifyAll st)) = board st" "playerStates (snd (notifyAll st)) = playerStates st"
  "claimLocks (snd (notifyAll st)) = claimLocks st"
  by (simp_all add: notifyAll_def Let_def split: sum.splits)

lemma publishAndLook_state: "snd (publishAndLook st p) = snd (notifyAll st)"
  by (simp add: publishAndLook_def split: prod.splits option.splits sum.splits)

lemma publishAndLook_fields [simp]:
  "height (snd (publishAndLook st p)) = height st" "width (snd (publishAndLook st p)) = width st"
  "board (snd (publishAndLook st p)) = board st" "playerStates (snd (publishAndLook st p)) = playerStates st"
  "claimLocks (snd (publishAndLook st p)) = claimLocks st"
  by (simp_all add: publishAndLook_state)

lemma publishAndLook_not_awaiting: "fst (publishAndLook st p) \<noteq> Awaiting wp"
  by (auto simp: publishAndLook_def split: prod.splits option.splits sum.splits)

lemma claimLoop_claimLocks:
  "claimLocks (snd (claimLoop st p r c s cell)) = claimLocks st"
proof (cases "mapHas (claimLocks st) (cellKey r c)")
  case True
  then show ?thesis
    by (simp add: claimLoop_def tryClaimCell_taken awaitWatch_state)
next
  case False
  note fresh = tryClaimCell_fresh [OF False]
  show ?thesis
  proof (cases "length (card_val cell) = 0 \<or> controlledByOther cell p")
    case True
    then show ?thesis by (auto simp: claimLoop_def awaitWatch_state)
  next
    case F2: False
    define st3 where "st3 = setState (onCell (st\<lparr>claimLocks := mapSet (cellKey r c) p (claimLocks st)\<rparr>) r c
        (\<lambda>c. c\<lparr>faceUp := True, controller := Some p\<rparr>)) p (s\<lparr>firstCard := Some (Pos r c)\<rparr>)"
    obtain out st4 where pl: "publishAndLook st3 p = (out, st4)" by (cases "publishAndLook st3 p")
    have "st4 = snd (publishAndLook st3 p)" using pl by simp
    then have "claimLocks st4 = claimLocks st3" by simp
    then have cl: "claimLocks st4 = mapSet (cellKey r c) p (claimLocks st)"
      by (simp add: st3_def)
    have na: "\<And>wp. out \<noteq> Awaiting wp" using publishAndLook_not_awaiting [of st3 p] pl by simp
    have "claimLoop st p r c s cell = (out, releaseClaim st4 r c p)"
      using F2 na pl by (simp add: claimLoop_def fresh Let_def st3_def split: outcome.splits)
    then show ?thesis using releaseClaim_after_claim [OF False cl] by simp
  qed
qed

subsection \<open>Dimensions, shape and claims are left alone\<close>

lemma frame_simple [simp]:
  "frame (setState st p s) = frame st"
  "frame (onCell st r c f) = frame st"
  "frame (publish st) = frame st"
  "frame (snd (notifyAll st)) = frame st"
  "frame (snd (publishAndLook st p)) = frame st"
  "frame (snd (watch st p)) = frame st"
  "frame (snd (awaitWatch st p wp)) = frame st"
  by (simp_all add: frame_def awaitWatch_state)

lemma frame_removeCard [simp]: "frame (removeCard st p) = frame st"
  by (simp add: removeCard_def)

lemma frame_turnDown [simp]: "frame (turnDown st pid p) = frame st"
  by (simp add: turnDown_def split: option.splits)

lemma frame_cleanupPreviousMove [simp]: "frame (snd (cleanupPreviousMove st pid)) = frame st"
  by (simp add: cleanupPreviousMove_def Let_def split: option.splits prod.splits)

lemma frame_releaseClaim_shape:
  "height (releaseClaim st r c p) = height st \<and> width (releaseClaim st r c p) = width st
   \<and> map length (board (releaseClaim st r c p)) = map length (board st)"
  by simp

lemma frame_claimLoop [simp]: "frame (snd (claimLoop st p r c s cell)) = frame st"
proof -
  have "claimLocks (snd (claimLoop st p r c s cell)) = claimLocks st"
    by (rule claimLoop_claimLocks)
  moreover have "height (snd (claimLoop st p r c s cell)) = height st
      \<and> width (snd (claimLoop st p r c s cell)) = width st
      \<and> map length (board (snd (claimLoop st p r c s cell))) = map length (board st)"
    by (simp add: claimLoop_def tryClaimCell_def Let_def awaitWatch_state case_prod_beta
          split: outcome.splits)
  ultimately show ?thesis by (simp add: frame_def)
qed

lemma frame_waitLoop [simp]: "frame (snd (waitLoop st p r c s cell)) = frame st"
  by (simp add: waitLoop_def)

lemma frame_flipNoCard [simp]: "frame (snd (flipNoCard st p s)) = frame st"
  by (simp add: flipNoCard_def Let_def case_prod_beta split: option.splits)

lemma frame_secondFlip [simp]: "frame (snd (secondFlip st p r c s first cell)) = frame st"
  by (simp add: secondFlip_def Let_def case_prod_beta split: option.splits)

lemma frame_flip: "frame (snd (flip st p r c)) = frame st"
  by (simp add: flip_def Let_def case_prod_beta split: option.splits)

lemma frame_flipResume:
  assumes "flipResume st p r c s wp = Some (out, st')"
  shows "frame st' = frame (if wp = WaitClaimed then releaseClaim st r c p else st)"
proof -
  obtain cell where cell: "cellAt (board st) r c = Some cell"
    using assms by (auto simp: flipResume_def split: option.splits)
  show ?thesis
  proof (cases wp)
    case WaitControlled
    then have "st' = snd (if length (card_val cell) = 0
        then (Threw (Error ''card was removed while waiting''), st) else waitLoop st p r c s cell)"
      using assms cell by (simp add: flipResume_def)
    then show ?thesis using WaitControlled by simp
  next
    case WaitRetry
    then have "st' = snd (claimLoop st p r c s cell)"
      using assms cell by (simp add: flipResume_def)
    then show ?thesis using WaitRetry by simp
  next
    case WaitClaimed
    then have "st' = snd (claimLoop (releaseClaim st r c p) p r c s cell)"
      using assms cell by (simp add: flipResume_def)
    then show ?thesis using WaitClaimed by simp
  qed
qed

section \<open>The discipline of the claim registry\<close>

lemma board2x2_loaded: "parseFromFile host ''2x2\<newline>A\<newline>B\<newline>B\<newline>A'' = Inr board2x2"
  by code_simp

subsection \<open>The key of a cell\<close>

lemma below_ten: "(k::nat) < 10 \<Longrightarrow> k \<in> {0, 1, 2, 3, 4, 5, 6, 7, 8, 9}"
  by auto

lemma digit_char_props:
  assumes "k < 10"
  shows "digit_val (digit_char k) = k" and "isDigit (digit_char k)" and "digit_char k \<noteq> CHR ''-''"
    and "digit_char k \<noteq> CHR '',''"
  using below_ten [OF assms]
  by (auto simp: digit_val_def digit_char_def isDigit_def)

lemma show_nat_digits: "c \<in> set (show_nat n) \<Longrightarrow> isDigit c"
proof (induction n arbitrary: c rule: show_nat.induct)
  case (1 n)
  show ?case
  proof (cases "n < 10")
    case True
    then show ?thesis using "1.prems" digit_char_props(2) [of n] by (simp add: show_nat.simps [of n])
  next
    case False
    have "n mod 10 < 10" by simp
    then show ?thesis using "1.prems" "1.IH" [OF False] False digit_char_props(2) [of "n mod 10"]
      by (auto simp: show_nat.simps [of n])
  qed
qed

lemma digits_val_snoc: "digits_val (ds @ [d]) = 10 * digits_val ds + digit_val d"
  by (simp add: digits_val_def)

lemma digits_val_show_nat: "digits_val (show_nat n) = n"
proof (induction n rule: show_nat.induct)
  case (1 n)
  show ?case
  proof (cases "n < 10")
    case True
    then show ?thesis by (simp add: show_nat.simps [of n] digits_val_def digit_char_props(1))
  next
    case False
    have "n mod 10 < 10" by simp
    then show ?thesis using "1.IH" [OF False] False
      by (simp add: show_nat.simps [of n] digits_val_snoc digit_char_props(1))
  qed
qed

lemma show_nat_inj: "show_nat m = show_nat n \<Longrightarrow> m = n"
  by (metis digits_val_show_nat)

lemma show_nat_nonempty: "show_nat n \<noteq> []"
  by (simp add: show_nat.simps [of n])

lemma isDigit_not_sign: "isDigit c \<Longrightarrow> c \<noteq> CHR ''-'' \<and> c \<noteq> CHR '',''"
  by (auto simp: isDigit_def)

lemma show_int_inj: "show_int a = show_int b \<Longrightarrow> a = b"
proof -
  assume e: "show_int a = show_int b"
  have hd: "\<And>n. hd (show_nat n) \<noteq> CHR ''-''"
    using show_nat_digits show_nat_nonempty isDigit_not_sign by (metis hd_in_set)
  show ?thesis
  proof (cases "a < 0"; cases "b < 0")
    assume "a < 0" "b < 0"
    then have "nat (- a) = nat (- b)" using e show_nat_inj by (simp add: show_int_def)
    then show ?thesis using \<open>a < 0\<close> \<open>b < 0\<close> by simp
  next
    assume "a < 0" "\<not> b < 0"
    then have "CHR ''-'' # show_nat (nat (- a)) = show_nat (nat b)" using e by (simp add: show_int_def)
    then show ?thesis using hd [of "nat b"] by (metis list.sel(1))
  next
    assume "\<not> a < 0" "b < 0"
    then have "show_nat (nat a) = CHR ''-'' # show_nat (nat (- b))" using e by (simp add: show_int_def)
    then show ?thesis using hd [of "nat a"] by (metis list.sel(1))
  next
    assume "\<not> a < 0" "\<not> b < 0"
    then have "nat a = nat b" using e show_nat_inj by (simp add: show_int_def)
    then show ?thesis using \<open>\<not> a < 0\<close> \<open>\<not> b < 0\<close> by simp
  qed
qed

lemma show_int_no_comma: "CHR '','' \<notin> set (show_int a)"
  using show_nat_digits isDigit_not_sign by (auto simp: show_int_def)

lemma cellKey_inj: "cellKey row col = cellKey row' col' \<longleftrightarrow> row = row' \<and> col = col'"
proof
  assume "cellKey row col = cellKey row' col'"
  then have "show_int row @ CHR '','' # show_int col = show_int row' @ CHR '','' # show_int col'"
    by (simp add: cellKey_def)
  then have "show_int row = show_int row' \<and> show_int col = show_int col'"
    using append_Cons_eq_iff [OF show_int_no_comma show_int_no_comma] by blast
  then show "row = row' \<and> col = col'" using show_int_inj by blast
qed simp

text \<open>
  C8. The key of a cell is the key of no other cell. \<open>tryClaimCell\<close> answers true exactly
  when the registry has no entry under the key of the cell, and then records the owner
  there; otherwise it answers false and leaves the board as it is. \<open>releaseClaim\<close> removes the entry of the cell exactly when the releasing
  owner holds it, and changes no other entry. A call of \<open>flip\<close>, however it ends (return,
  throw or await), leaves the registry as it found it: the entry it made is gone. A flip
  that awaited inside its claimed section releases its claim when it continues with the
  retry; continued from any other place, a flip leaves the registry as it found it.
\<close>

theorem claim_registry_discipline:
  "(\<forall>row' col'. cellKey row' col' = cellKey row col \<longleftrightarrow> row' = row \<and> col' = col) \<and>
   (fst (tryClaimCell st row col owner) \<longleftrightarrow> mapGet (claimLocks st) (cellKey row col) = None) \<and>
   (mapGet (claimLocks st) (cellKey row col) = None \<longrightarrow>
      snd (tryClaimCell st row col owner) = st\<lparr>claimLocks := mapSet (cellKey row col) owner (claimLocks st)\<rparr> \<and>
      mapGet (claimLocks (snd (tryClaimCell st row col owner))) (cellKey row col) = Some owner) \<and>
   (mapGet (claimLocks st) (cellKey row col) \<noteq> None \<longrightarrow> snd (tryClaimCell st row col owner) = st) \<and>
   (\<forall>k. mapGet (claimLocks (releaseClaim st row col owner)) k =
      (if k = cellKey row col \<and> mapGet (claimLocks st) (cellKey row col) = Some owner then None
       else mapGet (claimLocks st) k)) \<and>
   (mapGet (claimLocks st) (cellKey row col) \<noteq> Some owner \<longrightarrow> releaseClaim st row col owner = st) \<and>
   claimLocks (snd (flip st owner row col)) = claimLocks st \<and>
   (\<forall>state wp out st'. flipResume st owner row col state wp = Some (out, st') \<longrightarrow>
      (wp \<noteq> WaitClaimed \<longrightarrow> claimLocks st' = claimLocks st) \<and>
      (wp = WaitClaimed \<longrightarrow> claimLocks st' = claimLocks (releaseClaim st row col owner) \<and>
         mapGet (claimLocks st') (cellKey row col) \<noteq> Some owner))"
proof -
  have t: "fst (tryClaimCell st row col owner) \<longleftrightarrow> mapGet (claimLocks st) (cellKey row col) = None"
    by (simp add: tryClaimCell_def mapHas_mapGet Let_def)
  have t1: "mapGet (claimLocks st) (cellKey row col) = None \<longrightarrow>
      snd (tryClaimCell st row col owner) = st\<lparr>claimLocks := mapSet (cellKey row col) owner (claimLocks st)\<rparr> \<and>
      mapGet (claimLocks (snd (tryClaimCell st row col owner))) (cellKey row col) = Some owner"
    by (simp add: tryClaimCell_def mapHas_mapGet mapGet_mapSet Let_def)
  have t2: "mapGet (claimLocks st) (cellKey row col) \<noteq> None \<longrightarrow> snd (tryClaimCell st row col owner) = st"
    by (auto simp: tryClaimCell_def mapHas_mapGet Let_def)
  have r: "\<forall>k. mapGet (claimLocks (releaseClaim st row col owner)) k =
      (if k = cellKey row col \<and> mapGet (claimLocks st) (cellKey row col) = Some owner then None
       else mapGet (claimLocks st) k)"
    by (simp add: releaseClaim_def Let_def mapGet_mapDelete)
  have r1: "mapGet (claimLocks st) (cellKey row col) \<noteq> Some owner \<longrightarrow> releaseClaim st row col owner = st"
    by (simp add: releaseClaim_def)
  have f: "claimLocks (snd (flip st owner row col)) = claimLocks st"
    using frame_flip [of st owner row col] by (simp add: frame_def)
  have g: "(wp \<noteq> WaitClaimed \<longrightarrow> claimLocks st' = claimLocks st) \<and>
      (wp = WaitClaimed \<longrightarrow> claimLocks st' = claimLocks (releaseClaim st row col owner) \<and>
         mapGet (claimLocks st') (cellKey row col) \<noteq> Some owner)"
    if "flipResume st owner row col state wp = Some (out, st')" for state wp out st'
    using frame_flipResume [OF that] r by (auto simp: frame_def)
  have k: "\<forall>row' col'. cellKey row' col' = cellKey row col \<longleftrightarrow> row' = row \<and> col' = col"
    by (simp add: cellKey_inj)
  show ?thesis using k t t1 t2 r r1 f g by blast
qed

theorem claim_registry_discipline_witness:
  "fst (tryClaimCell board2x2 0 1 ''p1'') \<and>
   mapGet (claimLocks (snd (tryClaimCell board2x2 0 1 ''p1''))) (cellKey 0 1) = Some ''p1'' \<and>
   \<not> fst (tryClaimCell (snd (tryClaimCell board2x2 0 1 ''p1'')) 0 1 ''p2'') \<and>
   claimLocks (releaseClaim (snd (tryClaimCell board2x2 0 1 ''p1'')) 0 1 ''p2'') = [(''0,1'', ''p1'')] \<and>
   claimLocks (releaseClaim (snd (tryClaimCell board2x2 0 1 ''p1'')) 0 1 ''p1'') = [] \<and>
   fst (flip board2x2 ''p1'' 0 1) = Returned ''2x2\<newline>up A\<newline>my B\<newline>up B\<newline>up A'' \<and>
   claimLocks (snd (flip board2x2 ''p1'' 0 1)) = claimLocks board2x2 \<and>
   claimLocks (snd (the (flipResume (snd (tryClaimCell board2x2 0 1 ''p1'')) ''p1'' 0 1 idle WaitClaimed))) = []"
proof -
  note w = claim_registry_discipline [where st = board2x2 and row = 0 and col = 1 and owner = "''p1''"]
  have a: "mapGet (claimLocks board2x2) (cellKey 0 1) = None" by code_simp
  have b: "\<not> fst (tryClaimCell (snd (tryClaimCell board2x2 0 1 ''p1'')) 0 1 ''p2'')" by code_simp
  have c: "claimLocks (releaseClaim (snd (tryClaimCell board2x2 0 1 ''p1'')) 0 1 ''p2'') = [(''0,1'', ''p1'')]"
    by code_simp
  have d: "claimLocks (releaseClaim (snd (tryClaimCell board2x2 0 1 ''p1'')) 0 1 ''p1'') = []" by code_simp
  have e: "fst (flip board2x2 ''p1'' 0 1) = Returned ''2x2\<newline>up A\<newline>my B\<newline>up B\<newline>up A''" by code_simp
  have f: "claimLocks (snd (the (flipResume (snd (tryClaimCell board2x2 0 1 ''p1'')) ''p1'' 0 1 idle WaitClaimed))) = []"
    by code_simp
  have w1: "fst (tryClaimCell board2x2 0 1 ''p1'')" using w a by blast
  have w2: "mapGet (claimLocks (snd (tryClaimCell board2x2 0 1 ''p1''))) (cellKey 0 1) = Some ''p1''"
    using w a by blast
  have w3: "claimLocks (snd (flip board2x2 ''p1'' 0 1)) = claimLocks board2x2" using w by blast
  show ?thesis using w1 w2 w3 b c d e f by blast
qed

section \<open>The flip of a player who holds a first card\<close>

lemma mapSet_same: "mapGet m k = Some v \<Longrightarrow> mapSet k v m = m"
  by (induction m) (auto simp: mapGet_def split: if_splits)

lemma setState_same: "mapGet (playerStates st) p = Some s \<Longrightarrow> setState st p s = st"
  by (simp add: setState_def mapSet_same)

lemma cellAt_in_bounds:
  assumes "board_inv st" and "cellAt (board st) r c = Some x"
  shows "0 \<le> r \<and> r < height st \<and> 0 \<le> c \<and> c < width st"
proof -
  have b: "0 \<le> r" "r < int (length (board st))" "0 \<le> c" "c < int (length (board st ! nat r))"
    using assms(2) by (auto simp: cellAt_Some_iff)
  then have "board st ! nat r \<in> set (board st)" by (simp add: nat_less_iff)
  then have "int (length (board st ! nat r)) = width st"
    using assms(1) by (simp add: board_inv_def)
  then show ?thesis using b assms(1) by (simp add: board_inv_def)
qed

lemma in_bounds_cellAt:
  assumes "board_inv st" and "0 \<le> r" "r < height st" "0 \<le> c" "c < width st"
  shows "\<exists>x. cellAt (board st) r c = Some x"
proof -
  have "r < int (length (board st))" using assms by (simp add: board_inv_def)
  then have "board st ! nat r \<in> set (board st)" using assms(2) by (simp add: nat_less_iff)
  then have "int (length (board st ! nat r)) = width st"
    using assms(1) by (simp add: board_inv_def)
  then show ?thesis using assms \<open>r < int (length (board st))\<close> by (simp add: cellAt_def Let_def)
qed

lemma cell_ok_at: "board_inv st \<Longrightarrow> cellAt (board st) r c = Some x \<Longrightarrow> cell_ok x"
  using cellAt_in_set [of "board st" r c x] by (auto simp: board_inv_def)

lemma cleanup_holdingFirst:
  "mapGet (playerStates st) p = Some s \<Longrightarrow> secondCard s = None \<Longrightarrow>
   cleanupPreviousMove st p = (None, st)"
  by (simp add: cleanupPreviousMove_def split: option.splits)

lemma cleanup_no_state:
  "mapGet (playerStates st) p = None \<Longrightarrow> cleanupPreviousMove st p = (None, st)"
  by (simp add: cleanupPreviousMove_def)

lemma flip_holdingFirst:
  assumes "board_inv st" and "mapGet (playerStates st) p = Some s"
    and "firstCard s = Some first" and "secondCard s = None"
    and "cellAt (board st) row col = Some cell"
  shows "flip st p row col =
     (if card_val cell = [] then flipNoCard st p s else secondFlip st p row col s first cell)"
  using cellAt_in_bounds [OF assms(1,5)] assms
  by (simp add: flip_def cleanup_holdingFirst setState_same)

lemma flipNoCard_release:
  assumes "board_inv st" and "firstCard s = Some first"
    and "cellAt (board st) (pos_row first) (pos_col first) = Some fcell"
  shows "flipNoCard st p s =
     (Threw (Error ''invalid card position''),
      publish (setState (onCell st (pos_row first) (pos_col first) (\<lambda>c. c\<lparr>controller := None\<rparr>)) p
                 (s\<lparr>secondCard := Some NoneCard\<rparr>)))"
proof -
  have "cell_ok (fcell\<lparr>controller := None\<rparr>)"
    using cell_ok_at [OF assms(1,3)] by (simp add: cell_ok_def)
  then have "board_inv (onCell st (pos_row first) (pos_col first) (\<lambda>c. c\<lparr>controller := None\<rparr>))"
    using assms by (intro board_inv_onCell) (auto simp: cell_ok_def)
  then show ?thesis
    using assms by (simp add: flipNoCard_def Let_def notifyAll_ok)
qed

lemma secondFlip_controlled:
  assumes "board_inv st" and "faceUp cell" "controller cell \<noteq> None"
    and "cellAt (board st) (pos_row first) (pos_col first) = Some fcell"
  shows "secondFlip st p row col s first cell =
     (Threw (Error ''card is controlled by another player''),
      publish (setState (onCell st (pos_row first) (pos_col first) (\<lambda>c. c\<lparr>controller := None\<rparr>)) p
                 (s\<lparr>secondCard := Some NoneCard\<rparr>)))"
proof -
  have "board_inv (onCell st (pos_row first) (pos_col first) (\<lambda>c. c\<lparr>controller := None\<rparr>))"
    using assms by (intro board_inv_onCell) (auto simp: cell_ok_def)
  then show ?thesis
    using assms by (simp add: secondFlip_def Let_def notifyAll_ok)
qed

text \<open>What the state after a released first card looks like, field by field.\<close>

lemma released_first_state:
  assumes "cellAt (board st) fr fc = Some fcell"
    and "st' = publish (setState (onCell st fr fc (\<lambda>c. c\<lparr>controller := None\<rparr>)) p s')"
  shows "cellAt (board st') fr fc = Some (fcell\<lparr>controller := None\<rparr>)"
    and "\<forall>r c. (r, c) \<noteq> (fr, fc) \<longrightarrow> cellAt (board st') r c = cellAt (board st) r c"
    and "mapGet (playerStates st') p = Some s'"
    and "\<forall>q. q \<noteq> p \<longrightarrow> mapGet (playerStates st') q = mapGet (playerStates st) q"
    and "published st st'"
    and "frame st' = frame st"
  using assms by (auto simp: cellAt_modCell mapGet_mapSet published_def snapshot_def)

lemma board2x2_inv: "board_inv board2x2"
  by code_simp


text \<open>
  C6. A player holds a first card at \<open>(fr, fc)\<close> (first card recorded, no second card, no
  match) and flips a cell of the board. If the cell holds no card, the flip fails with
  \<open>invalid card position\<close>; if the cell holds a card that is face up and controlled, it
  fails with \<open>card is controlled by another player\<close>. In both cases the first card has
  lost its controller and is otherwise as it was, no other cell has changed, the player's
  state records the first card with the absent second card \<open>NoneCard\<close> and no match, the
  states of the other players are as they were, and the change has been published.
\<close>

theorem second_flip_failures_release_first:
  assumes "board_inv st"
    and "mapGet (playerStates st) p = Some \<lparr>firstCard = Some (Pos fr fc), secondCard = None, hasMatch = False\<rparr>"
    and "cellAt (board st) fr fc = Some fcell"
    and "cellAt (board st) row col = Some cell"
    and "card_val cell = [] \<or> (faceUp cell \<and> controller cell \<noteq> None)"
  shows "\<exists>st'. flip st p row col =
           (Threw (Error (if card_val cell = [] then ''invalid card position''
                          else ''card is controlled by another player'')), st') \<and>
         cellAt (board st') fr fc = Some (fcell\<lparr>controller := None\<rparr>) \<and>
         (\<forall>r c. (r, c) \<noteq> (fr, fc) \<longrightarrow> cellAt (board st') r c = cellAt (board st) r c) \<and>
         mapGet (playerStates st') p =
           Some \<lparr>firstCard = Some (Pos fr fc), secondCard = Some NoneCard, hasMatch = False\<rparr> \<and>
         (\<forall>q. q \<noteq> p \<longrightarrow> mapGet (playerStates st') q = mapGet (playerStates st) q) \<and>
         published st st'"
proof -
  define s where "s = \<lparr>firstCard = Some (Pos fr fc), secondCard = None, hasMatch = False\<rparr>"
  define st' where "st' = publish (setState (onCell st fr fc (\<lambda>c. c\<lparr>controller := None\<rparr>)) p
      (s\<lparr>secondCard := Some NoneCard\<rparr>))"
  have s: "firstCard s = Some (Pos fr fc)" "secondCard s = None" by (simp_all add: s_def)
  have fl: "flip st p row col =
      (if card_val cell = [] then flipNoCard st p s else secondFlip st p row col s (Pos fr fc) cell)"
    using flip_holdingFirst [OF assms(1) _ s assms(4)] assms(2) by (simp add: s_def)
  have "flip st p row col =
      (Threw (Error (if card_val cell = [] then ''invalid card position''
                     else ''card is controlled by another player'')), st')"
  proof (cases "card_val cell = []")
    case True
    then show ?thesis
      using fl flipNoCard_release [OF assms(1) s(1), of fcell p] assms(3) by (simp add: st'_def)
  next
    case False
    then have "faceUp cell" "controller cell \<noteq> None" using assms(5) by auto
    then show ?thesis
      using fl False secondFlip_controlled [OF assms(1), of cell "Pos fr fc" fcell p row col s] assms(3)
      by (simp add: st'_def)
  qed
  moreover have "s\<lparr>secondCard := Some NoneCard\<rparr> =
      \<lparr>firstCard = Some (Pos fr fc), secondCard = Some NoneCard, hasMatch = False\<rparr>"
    by (simp add: s_def)
  ultimately show ?thesis
    using released_first_state [OF assms(3) st'_def] by (intro exI [of _ st']) simp
qed


lemma boardHolding_played:
  "boardHolding = snd (watch (snd (flip (snd (flip (snd (flip (snd (flip board2x2
      ''p2'' 0 1)) ''p2'' 1 0)) ''p2'' 0 0)) ''p1'' 1 1)) ''w'')"
  by code_simp

theorem second_flip_failures_release_first_witness:
  "board_inv boardHolding \<and>
   mapGet (playerStates boardHolding) ''p2'' =
     Some \<lparr>firstCard = Some (Pos 0 0), secondCard = None, hasMatch = False\<rparr> \<and>
   cellAt (board boardHolding) 0 0 = Some \<lparr>card_val = ''A'', faceUp = True, controller = Some ''p2''\<rparr> \<and>
   cellAt (board boardHolding) 0 1 = Some \<lparr>card_val = [], faceUp = False, controller = None\<rparr> \<and>
   cellAt (board boardHolding) 1 1 = Some \<lparr>card_val = ''A'', faceUp = True, controller = Some ''p1''\<rparr> \<and>
   fst (flip boardHolding ''p2'' 0 1) = Threw (Error ''invalid card position'') \<and>
   fst (flip boardHolding ''p2'' 1 1) = Threw (Error ''card is controlled by another player'') \<and>
   cellAt (board (snd (flip boardHolding ''p2'' 0 1))) 0 0 =
     Some \<lparr>card_val = ''A'', faceUp = True, controller = None\<rparr> \<and>
   cellAt (board (snd (flip boardHolding ''p2'' 1 1))) 0 0 =
     Some \<lparr>card_val = ''A'', faceUp = True, controller = None\<rparr> \<and>
   mapGet (playerStates (snd (flip boardHolding ''p2'' 0 1))) ''p2'' =
     Some \<lparr>firstCard = Some (Pos 0 0), secondCard = Some NoneCard, hasMatch = False\<rparr> \<and>
   delivered (snd (flip boardHolding ''p2'' 1 1)) = [(''w'', ''2x2\<newline>up A\<newline>none\<newline>none\<newline>up A'')]"
proof -
  let ?A = "\<lparr>card_val = ''A'', faceUp = True, controller = Some ''p2''\<rparr>"
  let ?N = "\<lparr>card_val = [], faceUp = False, controller = None\<rparr>"
  let ?B = "\<lparr>card_val = ''A'', faceUp = True, controller = Some ''p1''\<rparr>"
  have h1: "board_inv boardHolding" by code_simp
  have h2: "mapGet (playerStates boardHolding) ''p2'' =
     Some \<lparr>firstCard = Some (Pos 0 0), secondCard = None, hasMatch = False\<rparr>" by code_simp
  have h3: "cellAt (board boardHolding) 0 0 = Some ?A" by code_simp
  have h4: "cellAt (board boardHolding) 0 1 = Some ?N" by code_simp
  have h5: "cellAt (board boardHolding) 1 1 = Some ?B" by code_simp
  have a: "card_val ?N = [] \<or> (faceUp ?N \<and> controller ?N \<noteq> None)" by simp
  have b: "card_val ?B = [] \<or> (faceUp ?B \<and> controller ?B \<noteq> None)" by simp
  from second_flip_failures_release_first [OF h1 h2 h3 h4 a]
  have c1: "fst (flip boardHolding ''p2'' 0 1) = Threw (Error ''invalid card position'')"
    and c2: "cellAt (board (snd (flip boardHolding ''p2'' 0 1))) 0 0 = Some (?A\<lparr>controller := None\<rparr>)"
    and c3: "mapGet (playerStates (snd (flip boardHolding ''p2'' 0 1))) ''p2'' =
     Some \<lparr>firstCard = Some (Pos 0 0), secondCard = Some NoneCard, hasMatch = False\<rparr>"
    by auto
  from second_flip_failures_release_first [OF h1 h2 h3 h5 b]
  have d1: "fst (flip boardHolding ''p2'' 1 1) = Threw (Error ''card is controlled by another player'')"
    and d2: "cellAt (board (snd (flip boardHolding ''p2'' 1 1))) 0 0 = Some (?A\<lparr>controller := None\<rparr>)"
    by auto
  have e: "delivered (snd (flip boardHolding ''p2'' 1 1)) = [(''w'', ''2x2\<newline>up A\<newline>none\<newline>none\<newline>up A'')]"
    by code_simp
  show ?thesis using h1 h2 h3 h4 h5 c1 c2 c3 d1 d2 e by simp
qed

text \<open>
  C10. A player who holds a first card at \<open>(fr, fc)\<close>, face up and under the player's own
  control, flips that same card again. The flip fails with the message
  \<open>card is controlled by another player\<close>; the card has lost its controller and is still
  face up with its label, no other cell has changed, and the player's state records the
  first card with the absent second card \<open>NoneCard\<close>.
\<close>

theorem flip_own_first_card:
  assumes "board_inv st"
    and "mapGet (playerStates st) p = Some \<lparr>firstCard = Some (Pos fr fc), secondCard = None, hasMatch = False\<rparr>"
    and "cellAt (board st) fr fc = Some fcell"
    and "faceUp fcell" and "controller fcell = Some p"
  shows "\<exists>st'. flip st p fr fc = (Threw (Error ''card is controlled by another player''), st') \<and>
         cellAt (board st') fr fc =
           Some \<lparr>card_val = card_val fcell, faceUp = True, controller = None\<rparr> \<and>
         (\<forall>r c. (r, c) \<noteq> (fr, fc) \<longrightarrow> cellAt (board st') r c = cellAt (board st) r c) \<and>
         mapGet (playerStates st') p =
           Some \<lparr>firstCard = Some (Pos fr fc), secondCard = Some NoneCard, hasMatch = False\<rparr>"
proof -
  define s where "s = \<lparr>firstCard = Some (Pos fr fc), secondCard = None, hasMatch = False\<rparr>"
  define st' where "st' = publish (setState (onCell st fr fc (\<lambda>c. c\<lparr>controller := None\<rparr>)) p
      (s\<lparr>secondCard := Some NoneCard\<rparr>))"
  have s: "firstCard s = Some (Pos fr fc)" "secondCard s = None" by (simp_all add: s_def)
  have card: "card_val fcell \<noteq> []"
    using cell_ok_at [OF assms(1,3)] assms(4) by (auto simp: cell_ok_def)
  have "flip st p fr fc = secondFlip st p fr fc s (Pos fr fc) fcell"
    using flip_holdingFirst [OF assms(1) _ s assms(3)] assms(2) card by (simp add: s_def)
  also have "\<dots> = (Threw (Error ''card is controlled by another player''), st')"
    using secondFlip_controlled [OF assms(1), of fcell "Pos fr fc" fcell p fr fc s] assms(3,4,5)
    by (simp add: st'_def)
  finally have fl: "flip st p fr fc = (Threw (Error ''card is controlled by another player''), st')" .
  have "fcell\<lparr>controller := None\<rparr> = \<lparr>card_val = card_val fcell, faceUp = True, controller = None\<rparr>"
    using assms(4) by simp
  moreover have "s\<lparr>secondCard := Some NoneCard\<rparr> =
      \<lparr>firstCard = Some (Pos fr fc), secondCard = Some NoneCard, hasMatch = False\<rparr>"
    by (simp add: s_def)
  ultimately show ?thesis
    using fl released_first_state(1,2,3) [OF assms(3) st'_def] by (intro exI [of _ st']) simp
qed

theorem flip_own_first_card_witness:
  "board_inv boardHolding \<and>
   mapGet (playerStates boardHolding) ''p1'' =
     Some \<lparr>firstCard = Some (Pos 1 1), secondCard = None, hasMatch = False\<rparr> \<and>
   cellAt (board boardHolding) 1 1 = Some \<lparr>card_val = ''A'', faceUp = True, controller = Some ''p1''\<rparr> \<and>
   fst (flip boardHolding ''p1'' 1 1) = Threw (Error ''card is controlled by another player'') \<and>
   cellAt (board (snd (flip boardHolding ''p1'' 1 1))) 1 1 =
     Some \<lparr>card_val = ''A'', faceUp = True, controller = None\<rparr> \<and>
   mapGet (playerStates (snd (flip boardHolding ''p1'' 1 1))) ''p1'' =
     Some \<lparr>firstCard = Some (Pos 1 1), secondCard = Some NoneCard, hasMatch = False\<rparr>"
proof -
  let ?B = "\<lparr>card_val = ''A'', faceUp = True, controller = Some ''p1''\<rparr>"
  have h1: "board_inv boardHolding" by code_simp
  have h2: "mapGet (playerStates boardHolding) ''p1'' =
     Some \<lparr>firstCard = Some (Pos 1 1), secondCard = None, hasMatch = False\<rparr>" by code_simp
  have h3: "cellAt (board boardHolding) 1 1 = Some ?B" by code_simp
  have h4: "faceUp ?B" and h5: "controller ?B = Some ''p1''" by simp_all
  from flip_own_first_card [OF h1 h2 h3 h4 h5]
  have c1: "fst (flip boardHolding ''p1'' 1 1) = Threw (Error ''card is controlled by another player'')"
    and c2: "cellAt (board (snd (flip boardHolding ''p1'' 1 1))) 1 1 =
      Some \<lparr>card_val = ''A'', faceUp = True, controller = None\<rparr>"
    and c3: "mapGet (playerStates (snd (flip boardHolding ''p1'' 1 1))) ''p1'' =
     Some \<lparr>firstCard = Some (Pos 1 1), secondCard = Some NoneCard, hasMatch = False\<rparr>"
    by auto
  show ?thesis using h1 h2 h3 c1 c2 c3 by simp
qed

section \<open>The first flip\<close>

lemma mapSet_idem: "mapSet k v (mapSet k v m) = mapSet k v m"
  by (induction m) auto


lemma claimLoop_success:
  assumes "board_inv st" and "cellAt (board st) row col = Some cell"
    and "card_val cell \<noteq> []" and "\<not> controlledByOther cell p"
    and "\<not> mapHas (claimLocks st) (cellKey row col)"
  shows "claimLoop st p row col s cell =
     (Returned (snapshot (onCell st row col (\<lambda>c. c\<lparr>faceUp := True, controller := Some p\<rparr>)) p),
      publish (setState (onCell st row col (\<lambda>c. c\<lparr>faceUp := True, controller := Some p\<rparr>)) p
                 (s\<lparr>firstCard := Some (Pos row col)\<rparr>)))"
proof -
  let ?up = "\<lambda>c. c\<lparr>faceUp := True, controller := Some p\<rparr>"
  define st1 where "st1 = st\<lparr>claimLocks := mapSet (cellKey row col) p (claimLocks st)\<rparr>"
  define st3 where "st3 = setState (onCell st1 row col ?up) p (s\<lparr>firstCard := Some (Pos row col)\<rparr>)"
  have inv1: "board_inv st1" using assms(1) by (simp add: st1_def board_inv_def)
  have "board_inv (onCell st1 row col ?up)"
  proof (rule board_inv_onCell [OF inv1])
    fix x assume "cellAt (board st1) row col = Some x" "cell_ok x"
    then have "x = cell" using assms(2) by (simp add: st1_def)
    then show "cell_ok (?up x)" using assms(3) by (simp add: cell_ok_def)
  qed
  then have inv3: "board_inv st3" by (simp add: st3_def)
  have pl: "publishAndLook st3 p = (Returned (snapshot st3 p), publish st3)"
    by (rule publishAndLook_ok [OF inv3])
  have "claimLoop st p row col s cell = (Returned (snapshot st3 p), releaseClaim (publish st3) row col p)"
    using assms(3,4) pl
    by (simp add: claimLoop_def tryClaimCell_fresh [OF assms(5)] Let_def st1_def [symmetric] st3_def [symmetric])
  moreover have "releaseClaim (publish st3) row col p =
      publish (setState (onCell st row col ?up) p (s\<lparr>firstCard := Some (Pos row col)\<rparr>))"
    using assms(5)
    by (simp add: releaseClaim_def Let_def st3_def st1_def publish_def setState_def onCell_def
          mapGet_mapSet mapDelete_mapSet_fresh snapshot_def)
  moreover have "snapshot st3 p = snapshot (onCell st row col ?up) p"
    by (simp add: st3_def st1_def snapshot_def onCell_def setState_def)
  ultimately show ?thesis by simp
qed



section \<open>The second flip\<close>

lemma secondFlip_resolves:
  assumes inv: "board_inv st"
    and cell: "cellAt (board st) row col = Some cell"
    and card: "card_val cell \<noteq> []"
    and free: "\<not> (faceUp cell \<and> controller cell \<noteq> None)"
    and fcell: "cellAt (board st) fr fc = Some fcell"
    and fup: "card_val cell = card_val fcell \<Longrightarrow> faceUp fcell"
    and ctl: "ctl = (if card_val cell = card_val fcell then Some p else None)"
    and s': "s' = (if card_val cell = card_val fcell
                   then s\<lparr>hasMatch := True, secondCard := Some (Pos row col)\<rparr>
                   else s\<lparr>secondCard := Some (Pos row col), hasMatch := False\<rparr>)"
    and b3: "b3 = modCell (modCell (modCell (board st) row col (\<lambda>c. c\<lparr>faceUp := True\<rparr>))
                    row col (\<lambda>c. c\<lparr>controller := ctl\<rparr>)) fr fc (\<lambda>c. c\<lparr>controller := ctl\<rparr>)"
  shows "secondFlip st p row col s (Pos fr fc) cell =
           (Returned (snapshot (st\<lparr>board := b3\<rparr>) p), publish (setState (st\<lparr>board := b3\<rparr>) p s'))"
    and "cellAt b3 row col = Some (cell\<lparr>faceUp := True, controller := ctl\<rparr>)"
    and "cellAt b3 fr fc = Some (fcell\<lparr>controller := ctl\<rparr>)"
    and "\<forall>r c. (r, c) \<noteq> (row, col) \<and> (r, c) \<noteq> (fr, fc) \<longrightarrow> cellAt b3 r c = cellAt (board st) r c"
    and "board_inv (st\<lparr>board := b3\<rparr>)"
proof -
  let ?up = "\<lambda>c. c\<lparr>faceUp := True\<rparr>"
  let ?ct = "\<lambda>c. c\<lparr>controller := ctl\<rparr>"
  define st1 where "st1 = onCell st row col ?up"
  define st2 where "st2 = onCell st1 row col ?ct"
  define st3 where "st3 = onCell st2 fr fc ?ct"
  have fok: "cell_ok fcell" by (rule cell_ok_at [OF inv fcell])
  have fctl: "cell_ok (fcell\<lparr>controller := ctl\<rparr>)"
    using fok fup card by (auto simp: cell_ok_def ctl)
  have c1: "cellAt (board st1) row col = Some (cell\<lparr>faceUp := True\<rparr>)"
    using cell by (simp add: st1_def cellAt_modCell)
  have c2: "cellAt (board st2) row col = Some (cell\<lparr>faceUp := True, controller := ctl\<rparr>)"
    using c1 by (simp add: st2_def cellAt_modCell)
  have f1: "cellAt (board st1) fr fc = Some (if (fr, fc) = (row, col) then cell\<lparr>faceUp := True\<rparr> else fcell)"
    using cell fcell by (auto simp: st1_def cellAt_modCell)
  have f2: "cellAt (board st2) fr fc =
      Some (if (fr, fc) = (row, col) then cell\<lparr>faceUp := True, controller := ctl\<rparr> else fcell)"
    using c1 f1 by (auto simp: st2_def cellAt_modCell)
  have same: "(fr, fc) = (row, col) \<Longrightarrow> fcell = cell" using cell fcell by simp
  have i1: "board_inv st1"
    unfolding st1_def using cell card by (intro board_inv_onCell [OF inv]) (simp add: cell_ok_def)
  have i2: "board_inv st2"
    unfolding st2_def using c1 card by (intro board_inv_onCell [OF i1]) (simp add: cell_ok_def)
  have i3: "board_inv st3"
    unfolding st3_def using f2 card fctl
    by (intro board_inv_onCell [OF i2]) (auto simp: cell_ok_def split: if_splits)
  have b3': "board st3 = b3" by (simp add: st3_def st2_def st1_def b3)
  have st3: "st3 = st\<lparr>board := b3\<rparr>" by (simp add: st3_def st2_def st1_def b3 onCell_def)
  have first: "cellAt (board st1) fr fc = Some (if (fr, fc) = (row, col) then cell\<lparr>faceUp := True\<rparr> else fcell)"
    by (rule f1)
  have eq: "card_val cell = card_val (if (fr, fc) = (row, col) then cell\<lparr>faceUp := True\<rparr> else fcell)
      \<longleftrightarrow> card_val cell = card_val fcell"
    using same by auto
  have nf: "(faceUp cell \<and> controller cell \<noteq> None) = False" using free by simp
  have "secondFlip st p row col s (Pos fr fc) cell = publishAndLook (setState st3 p s') p"
  proof (cases "card_val cell = card_val fcell")
    case True
    then show ?thesis
      using first eq
      by (simp only: secondFlip_def nf if_False Let_def st1_def [symmetric])
         (simp add: st3_def st2_def ctl s')
  next
    case False
    then show ?thesis
      using first eq
      by (simp only: secondFlip_def nf if_False Let_def st1_def [symmetric])
         (simp add: st3_def st2_def ctl s')
  qed
  also have "\<dots> = (Returned (snapshot (setState st3 p s') p), publish (setState st3 p s'))"
    using i3 by (intro publishAndLook_ok) simp
  finally show "secondFlip st p row col s (Pos fr fc) cell =
           (Returned (snapshot (st\<lparr>board := b3\<rparr>) p), publish (setState (st\<lparr>board := b3\<rparr>) p s'))"
    by (simp add: st3)
  show "cellAt b3 row col = Some (cell\<lparr>faceUp := True, controller := ctl\<rparr>)"
    using c2 by (auto simp: b3' [symmetric] st3_def cellAt_modCell)
  show "cellAt b3 fr fc = Some (fcell\<lparr>controller := ctl\<rparr>)"
    using f2 same fup by (auto simp: b3' [symmetric] st3_def cellAt_modCell)
  show "board_inv (st\<lparr>board := b3\<rparr>)" using i3 by (simp add: st3)
  show "\<forall>r c. (r, c) \<noteq> (row, col) \<and> (r, c) \<noteq> (fr, fc) \<longrightarrow> cellAt b3 r c = cellAt (board st) r c"
    by (auto simp: b3 cellAt_modCell)
qed




lemma boardFirst_played: "boardFirst = snd (watch (snd (flip board2x2 ''p1'' 0 0)) ''w'')"
  by code_simp


section \<open>The cleanup of the previous move\<close>

lemma isCardInPlayerStates_cong:
  "playerStates st' = playerStates st \<Longrightarrow> isCardInPlayerStates st' p r c = isCardInPlayerStates st p r c"
  by (simp add: isCardInPlayerStates_def)

lemma turnDown_fields [simp]:
  "playerStates (turnDown st p q) = playerStates st" "listeners (turnDown st p q) = listeners st"
  "delivered (turnDown st p q) = delivered st" "height (turnDown st p q) = height st"
  "width (turnDown st p q) = width st" "claimLocks (turnDown st p q) = claimLocks st"
  by (simp_all add: turnDown_def split: option.splits)

lemma removeCard_fields [simp]:
  "playerStates (removeCard st q) = playerStates st" "listeners (removeCard st q) = listeners st"
  "delivered (removeCard st q) = delivered st" "height (removeCard st q) = height st"
  "width (removeCard st q) = width st" "claimLocks (removeCard st q) = claimLocks st"
  by (simp_all add: removeCard_def)

lemma cellAt_turnDown:
  "cellAt (board (turnDown st p q)) r c =
     map_option (\<lambda>x. if (r, c) = (pos_row q, pos_col q) \<and> faceUp x \<and> controller x = None
                         \<and> \<not> isCardInPlayerStates st p r c
                      then x\<lparr>faceUp := False\<rparr> else x)
       (cellAt (board st) r c)"
  by (cases "cellAt (board st) r c")
     (auto simp: turnDown_def cellAt_modCell option.map_ident split: option.splits)

lemma cellAt_removeCard:
  "cellAt (board (removeCard st q)) r c =
     (if (r, c) = (pos_row q, pos_col q)
      then map_option (\<lambda>_. \<lparr>card_val = [], faceUp = False, controller = None\<rparr>) (cellAt (board st) r c)
      else cellAt (board st) r c)"
  by (cases "cellAt (board st) r c") (auto simp: removeCard_def cellAt_modCell)

lemma board_inv_turnDown: "board_inv st \<Longrightarrow> board_inv (turnDown st p q)"
  by (auto simp: turnDown_def cell_ok_def intro!: board_inv_onCell split: option.splits)

lemma board_inv_removeCard: "board_inv st \<Longrightarrow> board_inv (removeCard st q)"
  by (auto simp: removeCard_def cell_ok_def intro!: board_inv_onCell)

lemma cellLine_no_card: "card_val x = [] \<Longrightarrow> cellLine v x = ''none''"
  by (simp add: cellLine_def trim_def isWhitespace_def)





lemma cellAt_removed_pair:
  assumes st'_def: "st' = setState (removeCard (removeCard st a) b) p idle"
  shows "cellAt (board st') r c =
      (if (r, c) = (pos_row a, pos_col a) \<or> (r, c) = (pos_row b, pos_col b)
       then map_option (\<lambda>_. \<lparr>card_val = [], faceUp = False, controller = None\<rparr>) (cellAt (board st) r c)
       else cellAt (board st) r c)"
proof -
  let ?K = "map_option (\<lambda>_. \<lparr>card_val = [], faceUp = False, controller = None\<rparr>)"
  have kk: "?K (?K (cellAt (board st) r c)) = ?K (cellAt (board st) r c)"
    by (cases "cellAt (board st) r c") simp_all
  have "cellAt (board st') r c =
      (if (r, c) = (pos_row b, pos_col b)
       then ?K (if (r, c) = (pos_row a, pos_col a) then ?K (cellAt (board st) r c) else cellAt (board st) r c)
       else (if (r, c) = (pos_row a, pos_col a) then ?K (cellAt (board st) r c) else cellAt (board st) r c))"
    unfolding st'_def setState_fields cellAt_removeCard ..
  also have "\<dots> = (if (r, c) = (pos_row a, pos_col a) \<or> (r, c) = (pos_row b, pos_col b)
       then ?K (cellAt (board st) r c) else cellAt (board st) r c)"
    using kk by (simp only: if_distrib [of ?K] split: if_splits) metis
  finally show ?thesis .
qed


lemma turn_twice:
  "(if B \<and> faceUp (if A \<and> faceUp x \<and> controller x = None \<and> \<not> I then x\<lparr>faceUp := False\<rparr> else x)
        \<and> controller (if A \<and> faceUp x \<and> controller x = None \<and> \<not> I then x\<lparr>faceUp := False\<rparr> else x) = None
        \<and> \<not> I
    then (if A \<and> faceUp x \<and> controller x = None \<and> \<not> I then x\<lparr>faceUp := False\<rparr> else x)\<lparr>faceUp := False\<rparr>
    else (if A \<and> faceUp x \<and> controller x = None \<and> \<not> I then x\<lparr>faceUp := False\<rparr> else x))
   = (if (A \<or> B) \<and> faceUp x \<and> controller x = None \<and> \<not> I then x\<lparr>faceUp := False\<rparr> else x)"
  by (cases A; cases B; cases I; cases "faceUp x"; cases "controller x = None") simp_all

lemma cellAt_turned_pair:
  assumes st': "st' = (if b = NoneCard then publish (setState (turnDown st p a) p idle)
      else setState (turnDown (turnDown st p a) p b) p idle)"
  shows "cellAt (board st') r c =
      map_option
        (\<lambda>x. if ((r, c) = (pos_row a, pos_col a) \<or> (r, c) = (pos_row b, pos_col b)) \<and>
                 faceUp x \<and> controller x = None \<and> \<not> isCardInPlayerStates st p r c
              then x\<lparr>faceUp := False\<rparr> else x)
        (cellAt (board st) r c)"
proof (cases "cellAt (board st) r c")
  case None
  then show ?thesis by (simp add: st' cellAt_turnDown)
next
  case (Some x)
  define A where "A \<longleftrightarrow> (r, c) = (pos_row a, pos_col a)"
  define B where "B \<longleftrightarrow> (r, c) = (pos_row b, pos_col b)"
  define I where "I \<longleftrightarrow> isCardInPlayerStates st p r c"
  define y where "y = (if A \<and> faceUp x \<and> controller x = None \<and> \<not> I then x\<lparr>faceUp := False\<rparr> else x)"
  have i: "isCardInPlayerStates (turnDown st p a) p r c = I"
    unfolding I_def by (rule isCardInPlayerStates_cong) simp
  have one: "cellAt (board (turnDown st p a)) r c = Some y"
    unfolding cellAt_turnDown Some y_def A_def I_def by simp
  have two: "cellAt (board (turnDown (turnDown st p a) p b)) r c =
      Some (if B \<and> faceUp y \<and> controller y = None \<and> \<not> I then y\<lparr>faceUp := False\<rparr> else y)"
    unfolding cellAt_turnDown [of "turnDown st p a"] one i B_def by simp
  have goal: "map_option
        (\<lambda>x. if ((r, c) = (pos_row a, pos_col a) \<or> (r, c) = (pos_row b, pos_col b)) \<and>
                 faceUp x \<and> controller x = None \<and> \<not> isCardInPlayerStates st p r c
              then x\<lparr>faceUp := False\<rparr> else x)
        (cellAt (board st) r c)
      = Some (if (A \<or> B) \<and> faceUp x \<and> controller x = None \<and> \<not> I then x\<lparr>faceUp := False\<rparr> else x)"
    unfolding Some A_def B_def I_def by simp
  show ?thesis
  proof (cases "b = NoneCard")
    case True
    have "\<not> B"
    proof
      assume B
      then have "cellAt (board st) r c = None" using True by (simp add: B_def cellAt_def)
      then show False using Some by simp
    qed
    moreover have "cellAt (board st') r c = Some y" using True one by (simp add: st')
    ultimately show ?thesis unfolding goal y_def by simp
  next
    case False
    then have "cellAt (board st') r c =
        Some (if B \<and> faceUp y \<and> controller y = None \<and> \<not> I then y\<lparr>faceUp := False\<rparr> else y)"
      using two by (simp add: st')
    then show ?thesis unfolding goal y_def turn_twice .
  qed
qed


lemma cleanup_matched:
  assumes "mapGet (playerStates st) p = Some \<lparr>firstCard = Some a, secondCard = Some b, hasMatch = True\<rparr>"
  shows "cleanupPreviousMove st p = (None, setState (removeCard (removeCard st a) b) p idle)"
  using assms by (simp add: cleanupPreviousMove_def Let_def)

lemma cleanup_unmatched:
  assumes "board_inv st"
    and "mapGet (playerStates st) p = Some \<lparr>firstCard = Some a, secondCard = Some b, hasMatch = False\<rparr>"
  shows "cleanupPreviousMove st p =
     (None, if b = NoneCard then publish (setState (turnDown st p a) p idle)
            else setState (turnDown (turnDown st p a) p b) p idle)"
proof -
  have "board_inv (setState (turnDown st p a) p idle)"
    using board_inv_turnDown [OF assms(1)] by simp
  then show ?thesis
    using assms(2) by (simp add: cleanupPreviousMove_def Let_def notifyAll_ok)
qed

text \<open>
  C3. What \<open>cleanupPreviousMove\<close> does, by the state of the player. With no recorded card
  it changes nothing. With a matched pair \<open>a\<close>, \<open>b\<close> it leaves the cells at \<open>a\<close> and \<open>b\<close>
  without card, face down and uncontrolled (so each renders \<open>none\<close> for every viewer),
  leaves every other cell as it was and resets the player's state. With an unmatched pair
  \<open>a\<close>, \<open>b\<close>, where \<open>b\<close> may be the absent card \<open>NoneCard\<close>, a cell of the board is turned
  face down exactly if it is at \<open>a\<close> or at \<open>b\<close>, is face up, has no controller, and no other
  player's state records its coordinates as first or second card; every other cell stays
  as it was, and the player's state is reset. The states of the other players never change.
\<close>

theorem cleanup_by_player_state:
  assumes "board_inv st"
  shows "(mapGet (playerStates st) p = None \<or> mapGet (playerStates st) p = Some idle \<longrightarrow>
            cleanupPreviousMove st p = (None, st)) \<and>
         (\<forall>a b. mapGet (playerStates st) p = Some \<lparr>firstCard = Some a, secondCard = Some b, hasMatch = True\<rparr> \<longrightarrow>
            (\<exists>st'. cleanupPreviousMove st p = (None, st') \<and>
               (\<forall>r c. cellAt (board st') r c =
                  (if (r, c) = (pos_row a, pos_col a) \<or> (r, c) = (pos_row b, pos_col b)
                   then map_option (\<lambda>_. \<lparr>card_val = [], faceUp = False, controller = None\<rparr>)
                          (cellAt (board st) r c)
                   else cellAt (board st) r c)) \<and>
               (\<forall>x v. cellAt (board st') (pos_row a) (pos_col a) = Some x \<or>
                       cellAt (board st') (pos_row b) (pos_col b) = Some x \<longrightarrow> cellLine v x = ''none'') \<and>
               mapGet (playerStates st') p = Some idle \<and>
               (\<forall>q. q \<noteq> p \<longrightarrow> mapGet (playerStates st') q = mapGet (playerStates st) q))) \<and>
         (\<forall>a b. mapGet (playerStates st) p = Some \<lparr>firstCard = Some a, secondCard = Some b, hasMatch = False\<rparr> \<longrightarrow>
            (\<exists>st'. cleanupPreviousMove st p = (None, st') \<and>
               (\<forall>r c. cellAt (board st') r c =
                  map_option
                    (\<lambda>x. if ((r, c) = (pos_row a, pos_col a) \<or> (r, c) = (pos_row b, pos_col b)) \<and>
                             faceUp x \<and> controller x = None \<and> \<not> isCardInPlayerStates st p r c
                          then x\<lparr>faceUp := False\<rparr> else x)
                    (cellAt (board st) r c)) \<and>
               mapGet (playerStates st') p = Some idle \<and>
               (\<forall>q. q \<noteq> p \<longrightarrow> mapGet (playerStates st') q = mapGet (playerStates st) q)))"
proof (intro conjI allI impI)
  assume "mapGet (playerStates st) p = None \<or> mapGet (playerStates st) p = Some idle"
  then show "cleanupPreviousMove st p = (None, st)"
    by (auto simp: cleanupPreviousMove_def idle_def)
next
  fix a b
  assume h: "mapGet (playerStates st) p = Some \<lparr>firstCard = Some a, secondCard = Some b, hasMatch = True\<rparr>"
  define st' where "st' = setState (removeCard (removeCard st a) b) p idle"
  note c = cellAt_removed_pair [OF st'_def]
  have n: "cellLine v x = ''none''"
    if "cellAt (board st') (pos_row a) (pos_col a) = Some x \<or>
        cellAt (board st') (pos_row b) (pos_col b) = Some x" for x v
  proof -
    have "card_val x = []"
      using that c [of "pos_row a" "pos_col a"] c [of "pos_row b" "pos_col b"] by auto
    then show ?thesis by (rule cellLine_no_card)
  qed
  have ps: "mapGet (playerStates st') p = Some idle"
    "\<forall>q. q \<noteq> p \<longrightarrow> mapGet (playerStates st') q = mapGet (playerStates st) q"
    by (simp_all add: st'_def mapGet_mapSet)
  have "cleanupPreviousMove st p = (None, st')"
    using cleanup_matched [OF h] by (simp add: st'_def)
  then show "\<exists>st'. cleanupPreviousMove st p = (None, st') \<and>
      (\<forall>r c. cellAt (board st') r c =
         (if (r, c) = (pos_row a, pos_col a) \<or> (r, c) = (pos_row b, pos_col b)
          then map_option (\<lambda>_. \<lparr>card_val = [], faceUp = False, controller = None\<rparr>) (cellAt (board st) r c)
          else cellAt (board st) r c)) \<and>
      (\<forall>x v. cellAt (board st') (pos_row a) (pos_col a) = Some x \<or>
              cellAt (board st') (pos_row b) (pos_col b) = Some x \<longrightarrow> cellLine v x = ''none'') \<and>
      mapGet (playerStates st') p = Some idle \<and>
      (\<forall>q. q \<noteq> p \<longrightarrow> mapGet (playerStates st') q = mapGet (playerStates st) q)"
    using c n ps by blast
next
  fix a b
  assume h: "mapGet (playerStates st) p = Some \<lparr>firstCard = Some a, secondCard = Some b, hasMatch = False\<rparr>"
  define st' where "st' = (if b = NoneCard then publish (setState (turnDown st p a) p idle)
      else setState (turnDown (turnDown st p a) p b) p idle)"
  note c = cellAt_turned_pair [OF st'_def]
  have ps: "mapGet (playerStates st') p = Some idle"
    "\<forall>q. q \<noteq> p \<longrightarrow> mapGet (playerStates st') q = mapGet (playerStates st) q"
    by (simp_all add: st'_def mapGet_mapSet)
  have "cleanupPreviousMove st p = (None, st')"
    using cleanup_unmatched [OF assms h] by (simp add: st'_def)
  then show "\<exists>st'. cleanupPreviousMove st p = (None, st') \<and>
      (\<forall>r c. cellAt (board st') r c =
         map_option
           (\<lambda>x. if ((r, c) = (pos_row a, pos_col a) \<or> (r, c) = (pos_row b, pos_col b)) \<and>
                    faceUp x \<and> controller x = None \<and> \<not> isCardInPlayerStates st p r c
                 then x\<lparr>faceUp := False\<rparr> else x)
           (cellAt (board st) r c)) \<and>
      mapGet (playerStates st') p = Some idle \<and>
      (\<forall>q. q \<noteq> p \<longrightarrow> mapGet (playerStates st') q = mapGet (playerStates st) q)"
    using c ps by blast
qed


lemma ex_snd_holds: "\<exists>y. f = (a, y) \<and> Q y \<Longrightarrow> Q (snd f)"
  by auto

lemma boardMatched_played:
  "boardMatched = snd (flip (snd (flip board2x2 ''p1'' 0 0)) ''p1'' 1 1)"
  by code_simp

lemma boardShared_played:
  "boardShared = snd (flip (snd (flip (snd (flip (snd (flip board2x2
      ''p1'' 0 0)) ''p1'' 0 1)) ''p2'' 0 1)) ''p2'' 1 1)"
  by code_simp

theorem cleanup_by_player_state_witness:
  "board_inv boardMatched \<and> board_inv boardShared \<and>
   mapGet (playerStates boardMatched) ''p2'' = None \<and>
   cleanupPreviousMove boardMatched ''p2'' = (None, boardMatched) \<and>
   mapGet (playerStates boardMatched) ''p1'' =
     Some \<lparr>firstCard = Some (Pos 0 0), secondCard = Some (Pos 1 1), hasMatch = True\<rparr> \<and>
   board (snd (cleanupPreviousMove boardMatched ''p1'')) =
     [[\<lparr>card_val = [], faceUp = False, controller = None\<rparr>,
       \<lparr>card_val = ''B'', faceUp = False, controller = None\<rparr>],
      [\<lparr>card_val = ''B'', faceUp = False, controller = None\<rparr>,
       \<lparr>card_val = [], faceUp = False, controller = None\<rparr>]] \<and>
   cellAt (board (snd (cleanupPreviousMove boardMatched ''p1''))) 0 0 =
     Some \<lparr>card_val = [], faceUp = False, controller = None\<rparr> \<and>
   look (snd (cleanupPreviousMove boardMatched ''p1'')) ''p2'' = Inr ''2x2\<newline>none\<newline>up B\<newline>up B\<newline>none'' \<and>
   mapGet (playerStates boardShared) ''p1'' =
     Some \<lparr>firstCard = Some (Pos 0 0), secondCard = Some (Pos 0 1), hasMatch = False\<rparr> \<and>
   isCardInPlayerStates boardShared ''p1'' 0 1 \<and> \<not> isCardInPlayerStates boardShared ''p1'' 0 0 \<and>
   cellAt (board (snd (cleanupPreviousMove boardShared ''p1''))) 0 0 =
     Some \<lparr>card_val = ''A'', faceUp = False, controller = None\<rparr> \<and>
   cellAt (board (snd (cleanupPreviousMove boardShared ''p1''))) 0 1 =
     Some \<lparr>card_val = ''B'', faceUp = True, controller = None\<rparr> \<and>
   mapGet (playerStates (snd (cleanupPreviousMove boardShared ''p1''))) ''p1'' = Some idle"
proof -
  have h1: "board_inv boardMatched" by code_simp
  have h2: "board_inv boardShared" by code_simp
  have a: "mapGet (playerStates boardMatched) ''p2'' = None" by code_simp
  have b: "mapGet (playerStates boardMatched) ''p1'' =
     Some \<lparr>firstCard = Some (Pos 0 0), secondCard = Some (Pos 1 1), hasMatch = True\<rparr>" by code_simp
  have c: "mapGet (playerStates boardShared) ''p1'' =
     Some \<lparr>firstCard = Some (Pos 0 0), secondCard = Some (Pos 0 1), hasMatch = False\<rparr>" by code_simp
  have i: "isCardInPlayerStates boardShared ''p1'' 0 1" "\<not> isCardInPlayerStates boardShared ''p1'' 0 0"
    by code_simp+
  have x: "cellAt (board boardMatched) 0 0 = Some \<lparr>card_val = ''A'', faceUp = True, controller = Some ''p1''\<rparr>"
    "cellAt (board boardShared) 0 0 = Some \<lparr>card_val = ''A'', faceUp = True, controller = None\<rparr>"
    "cellAt (board boardShared) 0 1 = Some \<lparr>card_val = ''B'', faceUp = True, controller = None\<rparr>"
    by code_simp+
  note m = cleanup_by_player_state [OF h1, of "''p1''"]
  have m0: "cleanupPreviousMove boardMatched ''p2'' = (None, boardMatched)"
    using cleanup_by_player_state [OF h1, of "''p2''", THEN conjunct1] a by simp
  note m1 = m [THEN conjunct2, THEN conjunct1, rule_format, OF b, THEN ex_snd_holds]
  have m3: "cellAt (board (snd (cleanupPreviousMove boardMatched ''p1''))) 0 0 =
     Some \<lparr>card_val = [], faceUp = False, controller = None\<rparr>"
    using m1 [THEN conjunct1, rule_format, of 0 0] x(1) by simp
  note u = cleanup_by_player_state [OF h2, of "''p1''", THEN conjunct2, THEN conjunct2, rule_format, OF c,
      THEN ex_snd_holds]
  have u4: "cellAt (board (snd (cleanupPreviousMove boardShared ''p1''))) 0 0 =
     Some \<lparr>card_val = ''A'', faceUp = False, controller = None\<rparr>"
    using u [THEN conjunct1, rule_format, of 0 0] x(2) i(2) by simp
  have u5: "cellAt (board (snd (cleanupPreviousMove boardShared ''p1''))) 0 1 =
     Some \<lparr>card_val = ''B'', faceUp = True, controller = None\<rparr>"
    using u [THEN conjunct1, rule_format, of 0 1] x(3) i(1) by simp
  have u6: "mapGet (playerStates (snd (cleanupPreviousMove boardShared ''p1''))) ''p1'' = Some idle"
    using u [THEN conjunct2, THEN conjunct1] .
  have e1: "board (snd (cleanupPreviousMove boardMatched ''p1'')) =
     [[\<lparr>card_val = [], faceUp = False, controller = None\<rparr>,
       \<lparr>card_val = ''B'', faceUp = False, controller = None\<rparr>],
      [\<lparr>card_val = ''B'', faceUp = False, controller = None\<rparr>,
       \<lparr>card_val = [], faceUp = False, controller = None\<rparr>]]" by code_simp
  have e2: "look (snd (cleanupPreviousMove boardMatched ''p1'')) ''p2'' = Inr ''2x2\<newline>none\<newline>up B\<newline>up B\<newline>none''"
    by code_simp
  show ?thesis using h1 h2 a m0 b e1 m3 e2 c i u4 u5 u6 by (intro conjI)
qed

section \<open>Calls of map that interleave\<close>

text \<open>
  C5. The specification has \<open>map\<close> leave equal labels on any two cells that held equal
  labels, for every later observer, and the comment of \<open>map\<close> in the source asks the same
  of two calls that interleave; the tests of the repository run two calls at once and
  expect pairs. \<open>map\<close> awaits \<open>f\<close> inside its loops and reads the label of the cell again
  after the await. On the board of the file \<open>2x2, A, B, B, A\<close>: when \<open>map(p1, c => c + '_1')\<close>
  has continued once, its first cell holds \<open>A_1\<close> and the other three cells hold \<open>B, B, A\<close>,
  the call waits at the second cell, and \<open>look\<close> shows these labels, the two \<open>A\<close> cards
  unequal. When that call and \<open>map(p2, c => c + '_2')\<close> take turns, both return, and the
  board holds \<open>A_1, B_1, B_1_2, A_1_2\<close>: no two cells hold equal labels, and no cell
  holds \<open>f\<close> of the label it held for the second call, \<open>A_2\<close> or \<open>B_2\<close>.
\<close>

theorem map_interleaved_breaks_pairs:
  "labels board2x2 = [[''A'', ''B''], [''B'', ''A'']] \<and>
   fst duringMap =
     Waiting \<lparr>wait_row = 0, wait_cell = 1, wait_card = ''B'', wait_promise = ''B_1'',
              wait_replacements = [(''A'', ''A_1'')]\<rparr> \<and>
   labels (snd (snd duringMap)) = [[''A_1'', ''B''], [''B'', ''A'']] \<and>
   look (snd (snd duringMap)) ''p2'' = Inr ''2x2\<newline>up A_1\<newline>up B\<newline>up B\<newline>up A'' \<and>
   fst afterTwoMaps = Ended (Returned ''2x2\<newline>up A_1\<newline>up B_1\<newline>up B_1\<newline>up A_1'') \<and>
   fst (snd afterTwoMaps) = Ended (Returned ''2x2\<newline>up A_1\<newline>up B_1\<newline>up B_1_2\<newline>up A_1_2'') \<and>
   labels (snd (snd afterTwoMaps)) = [[''A_1'', ''B_1''], [''B_1_2'', ''A_1_2'']]"
  by code_simp

section \<open>The validation of a board file\<close>

lemma parseInt_denoted:
  assumes "denoted (parseInt s) = Some i"
  shows "parseInt s = (if \<bar>i\<bar> < 2 ^ 53 then Exact i else Rounded i)"
proof (cases "parseInt s")
  case NaN
  then show ?thesis using assms by simp
next
  case (Exact j)
  then have "\<bar>j\<bar> < 2 ^ 53"
    unfolding parseInt_def Let_def by (simp split: if_splits)
  then show ?thesis using assms Exact by simp
next
  case (Rounded j)
  then have "\<not> \<bar>j\<bar> < 2 ^ 53"
    unfolding parseInt_def Let_def by (simp split: if_splits)
  then show ?thesis using assms Rounded by simp
qed

lemma dimensionsOf_Some:
  assumes "dimensionsOf l = Some (h, w)"
  obtains p0 p1 where "split_on CHR ''x'' l = [p0, p1]" "trim p0 \<noteq> []" "trim p1 \<noteq> []"
    "parseInt (trim p0) = (if \<bar>h\<bar> < 2 ^ 53 then Exact h else Rounded h)"
    "parseInt (trim p1) = (if \<bar>w\<bar> < 2 ^ 53 then Exact w else Rounded w)"
proof -
  from assms obtain p0 p1 where s: "split_on CHR ''x'' l = [p0, p1]"
    by (auto simp: dimensionsOf_def split: list.splits)
  then have t: "trim p0 \<noteq> []" "trim p1 \<noteq> []"
    using assms by (auto simp: dimensionsOf_def split: if_splits)
  then have den: "denoted (parseInt (trim p0)) = Some h" "denoted (parseInt (trim p1)) = Some w"
    using assms s by (auto simp: dimensionsOf_def split: option.splits)
  have "parseInt (trim p0) = (if \<bar>h\<bar> < 2 ^ 53 then Exact h else Rounded h)"
    by (rule parseInt_denoted [OF den(1)])
  moreover have "parseInt (trim p1) = (if \<bar>w\<bar> < 2 ^ 53 then Exact w else Rounded w)"
    by (rule parseInt_denoted [OF den(2)])
  ultimately show ?thesis using that s t by blast
qed

lemma parseFromFile_dims:
  assumes "dimensionsOf (firstLineOf content) = Some (h, w)"
  shows "parseFromFile host content =
     (if firstLineOf content = [] then Inl (Error ''empty board file'')
      else if h \<le> 0 \<or> w \<le> 0 then Inl (Error ''invalid board dimensions'')
      else if \<bar>h\<bar> < 2 ^ 53 \<longrightarrow> int (length (fileLines content)) < h + 1
        then Inl (Error ''insufficient board rows'')
      else if \<not> (\<bar>w\<bar> < 2 ^ 53 \<and> h * w < 2 ^ 53)
        then Inl (Error (bigNumbersMessage host content))
      else if (h * w) mod 2 \<noteq> 0 then Inl (Error ''total number of cards must be even'')
      else if int (length (allCardsOf content)) \<noteq> h * w
        then Inl (Error (expectedMessage (h * w) h w (length (allCardsOf content))))
      else (case fillRows (allCardsOf content) (nat w) [0..<nat h] [] of
              Inl e \<Rightarrow> Inl e
            | Inr (cards, cardCounts) \<Rightarrow>
                (case find (\<lambda>(c, n). n mod 2 \<noteq> 0) cardCounts of
                   Some (c, n) \<Rightarrow> Inl (Error (oddMessage c n))
                 | None \<Rightarrow> newBoard h w cards)))"
proof -
  from assms obtain p0 p1 where d: "split_on CHR ''x'' (firstLineOf content) = [p0, p1]"
    "trim p0 \<noteq> []" "trim p1 \<noteq> []"
    "parseInt (trim p0) = (if \<bar>h\<bar> < 2 ^ 53 then Exact h else Rounded h)"
    "parseInt (trim p1) = (if \<bar>w\<bar> < 2 ^ 53 then Exact w else Rounded w)"
    by (rule dimensionsOf_Some)
  have m: "bigNumbersMessage host content = host (trim p0) (trim p1) (length (allCardsOf content))"
    by (simp add: bigNumbersMessage_def d(1))
  show ?thesis
  proof (cases "\<bar>h\<bar> < 2 ^ 53")
    case h: True
    show ?thesis
    proof (cases "\<bar>w\<bar> < 2 ^ 53")
      case w: True
      show ?thesis
        unfolding parseFromFile_def Let_def d(1) list.case m
        using d(2,3) h w by (simp add: d(4,5) isNaN_def)
    next
      case w: False
      show ?thesis
        unfolding parseFromFile_def Let_def d(1) list.case m
        using d(2,3) h w by (simp add: d(4,5) isNaN_def)
    qed
  next
    case h: False
    show ?thesis
    proof (cases "\<bar>w\<bar> < 2 ^ 53")
      case w: True
      show ?thesis
        unfolding parseFromFile_def Let_def d(1) list.case m
        using d(2,3) h w by (simp add: d(4,5) isNaN_def)
    next
      case w: False
      show ?thesis
        unfolding parseFromFile_def Let_def d(1) list.case m
        using d(2,3) h w by (simp add: d(4,5) isNaN_def)
    qed
  qed
qed

lemma parseFromFile_no_dims:
  assumes "dimensionsOf (firstLineOf content) = None"
  shows "\<exists>e. parseFromFile host content = Inl e"
proof (cases "firstLineOf content = []")
  case True
  then show ?thesis by (simp add: parseFromFile_def)
next
  case False
  show ?thesis
  proof (cases "\<exists>p0 p1. split_on CHR ''x'' (firstLineOf content) = [p0, p1]")
    case F2: False
    then have "parseFromFile host content = Inl (Error ''invalid board dimensions format'')"
      using False unfolding parseFromFile_def Let_def
      by (simp split: list.splits)
    then show ?thesis by blast
  next
    case True
    then obtain p0 p1 where s: "split_on CHR ''x'' (firstLineOf content) = [p0, p1]" by blast
    show ?thesis
    proof (cases "trim p0 = [] \<or> trim p1 = []")
      case T2: True
      then show ?thesis using False unfolding parseFromFile_def Let_def s list.case by auto
    next
      case F3: False
      then have "denoted (parseInt (trim p0)) = None \<or> denoted (parseInt (trim p1)) = None"
        using assms s by (auto simp: dimensionsOf_def split: option.splits)
      then have "isNaN (parseInt (trim p0)) \<or> isNaN (parseInt (trim p1))"
        by (cases "parseInt (trim p0)"; cases "parseInt (trim p1)") (simp_all add: isNaN_def)
      then show ?thesis using False F3 unfolding parseFromFile_def Let_def s list.case
        by auto
    qed
  qed
qed

lemma dimensionsOf_empty: "dimensionsOf [] = None"
  by (simp add: dimensionsOf_def)

lemma fillRow_ok:
  assumes "\<forall>j \<in> set js. base + j < length xs \<and> xs ! (base + j) \<noteq> []"
  shows "fillRow xs base js counts =
     Inr (map (\<lambda>j. xs ! (base + j)) js, fold countCard (map (\<lambda>j. xs ! (base + j)) js) counts)"
  using assms
  by (induction js arbitrary: counts) (simp_all add: countCard_def Let_def)

lemma fillRows_ok:
  assumes "\<forall>i \<in> set is. \<forall>j < w. i * w + j < length xs \<and> xs ! (i * w + j) \<noteq> []"
  shows "fillRows xs w is counts =
     Inr (map (\<lambda>i. map (\<lambda>j. xs ! (i * w + j)) [0..<w]) is,
          fold countCard (concat (map (\<lambda>i. map (\<lambda>j. xs ! (i * w + j)) [0..<w]) is)) counts)"
  using assms
proof (induction "is" arbitrary: counts)
  case Nil
  then show ?case by simp
next
  case (Cons i "is")
  have "\<forall>j \<in> set [0..<w]. i * w + j < length xs \<and> xs ! (i * w + j) \<noteq> []"
    using Cons.prems by simp
  note r = fillRow_ok [OF this]
  show ?case using Cons.IH Cons.prems by (simp add: r)
qed

lemma row_slice: "k + w \<le> length xs \<Longrightarrow> map (\<lambda>j. xs ! (k + j)) [0..<w] = take w (drop k xs)"
  by (auto simp: list_eq_iff_nth_eq)

lemma rows_concat:
  "h * w \<le> length xs \<Longrightarrow>
   concat (map (\<lambda>i. map (\<lambda>j. xs ! (i * w + j)) [0..<w]) [0..<h]) = take (h * w) xs"
proof (induction h)
  case 0
  then show ?case by simp
next
  case (Suc h)
  then have le: "h * w + w \<le> length xs" by (simp add: add.commute)
  then have "h * w \<le> length xs" by simp
  then have ih: "concat (map (\<lambda>i. map (\<lambda>j. xs ! (i * w + j)) [0..<w]) [0..<h]) = take (h * w) xs"
    by (rule Suc.IH)
  have "Suc h * w = h * w + w" by simp
  then have "take (Suc h * w) xs = take (h * w) xs @ take w (drop (h * w) xs)"
    by (simp only: take_add)
  then show ?case using ih row_slice [OF le] by simp
qed

lemma keys_mapSet: "fst ` set (mapSet k v m) = insert k (fst ` set m)"
  by (induction m) auto

lemma distinct_mapSet: "distinct (map fst m) \<Longrightarrow> distinct (map fst (mapSet k v m))"
  by (induction m) (auto simp: keys_mapSet)

lemma cnt_countCard: "cnt (countCard c m) k = cnt m k + (if k = c then 1 else 0)"
  by (simp add: cnt_def countCard_def mapGet_mapSet)

lemma cnt_fold: "cnt (fold countCard xs m) k = cnt m k + count_list xs k"
  by (induction xs arbitrary: m) (auto simp: cnt_countCard)

lemma keys_fold: "fst ` set (fold countCard xs m) = fst ` set m \<union> set xs"
  by (induction xs arbitrary: m) (auto simp: countCard_def keys_mapSet)

lemma distinct_fold: "distinct (map fst m) \<Longrightarrow> distinct (map fst (fold countCard xs m))"
  by (induction xs arbitrary: m) (simp_all add: countCard_def distinct_mapSet)

lemma counts_entries:
  "(k, n) \<in> set (fold countCard xs []) \<longleftrightarrow> k \<in> set xs \<and> n = count_list xs k"
proof -
  let ?m = "fold countCard xs []"
  have d: "distinct (map fst ?m)" by (rule distinct_fold) simp
  have g: "(k, n) \<in> set ?m \<longleftrightarrow> mapGet ?m k = Some n"
    using d by (simp add: mapGet_def)
  have "cnt [] k = 0" by (simp add: cnt_def mapGet_def)
  then have c: "cnt ?m k = count_list xs k" by (simp add: cnt_fold)
  have ks: "k \<in> fst ` set ?m \<longleftrightarrow> k \<in> set xs" by (simp add: keys_fold)
  show ?thesis
  proof
    assume "(k, n) \<in> set ?m"
    then have "mapGet ?m k = Some n" "k \<in> fst ` set ?m" using g by (auto simp: image_iff intro: bexI [of _ "(k, n)"])
    then show "k \<in> set xs \<and> n = count_list xs k" using c ks by (simp add: cnt_def)
  next
    assume a: "k \<in> set xs \<and> n = count_list xs k"
    then have "k \<in> fst ` set ?m" using ks by simp
    then obtain n' where "(k, n') \<in> set ?m" by auto
    then have "mapGet ?m k = Some n'" using g d by (simp add: mapGet_def)
    then have "n' = count_list xs k" using c by (simp add: cnt_def)
    then show "(k, n) \<in> set ?m" using a \<open>(k, n') \<in> set ?m\<close> by simp
  qed
qed

lemma split_on_nonempty: "split_on sep s \<noteq> []"
  by (induction s) (auto split: list.splits)

lemma allCards_nonempty: "c \<in> set (allCardsOf content) \<Longrightarrow> c \<noteq> []"
  by (auto simp: allCardsOf_def)

lemma length_allCards: "length (allCardsOf content) + 1 \<le> length (fileLines content)"
proof -
  have "length (allCardsOf content) \<le> length (tl (fileLines content))"
    unfolding allCardsOf_def by (rule le_trans [OF length_filter_le]) simp
  moreover have "fileLines content \<noteq> []" by (simp add: fileLines_def split_on_nonempty)
  ultimately show ?thesis by (cases "fileLines content") simp_all
qed

lemma length_split_on: "length (split_on sep s) \<le> length s + 1"
  by (induction s) (auto split: list.splits)

lemma length_trim: "length (trim s) \<le> length s"
proof -
  have "length (trim s) \<le> length (dropWhile isWhitespace s)"
    unfolding trim_def using length_dropWhile_le [of isWhitespace "rev (dropWhile isWhitespace s)"]
    by simp
  then show ?thesis using length_dropWhile_le [of isWhitespace s] by linarith
qed

lemma length_fileLines: "length (fileLines content) \<le> length content + 1"
  unfolding fileLines_def
  using length_split_on [of "CHR ''\<newline>''" "trim content"] length_trim [of content] by linarith

lemma newBoard_ok:
  assumes "0 < h" "0 < w" "int (length cards) = h"
    and "\<forall>row \<in> set cards. int (length row) = w \<and> (\<forall>c \<in> set row. c \<noteq> [])"
  shows "newBoard h w cards =
     Inr \<lparr>height = h, width = w, board = map (map faceDown) cards,
          playerStates = [], listeners = [], claimLocks = [], delivered = []\<rparr>"
proof -
  have "firstFailure (checkRepRow w) (map (map (\<lambda>c. \<lparr>card_val = c, faceUp = False, controller = None\<rparr>)) cards) = None"
    using assms(4) by (auto simp: firstFailure_None checkRepRow_def checkRepCell_def)
  then show ?thesis using assms(1,2,3)
    by (simp add: newBoard_def checkRep_def Let_def faceDown_def [abs_def])
qed

lemma parse_checked:
  assumes d: "dimensionsOf (firstLineOf content) = Some (h, w)"
    and pos: "0 < h" "0 < w"
    and ev: "even (h * w)"
    and len: "int (length (allCardsOf content)) = h * w"
    and small: "h * w < 2 ^ 53"
  shows "parseFromFile host content =
     (case find (\<lambda>(c, n). n mod 2 \<noteq> 0) (fold countCard (allCardsOf content) []) of
        Some (c, n) \<Rightarrow> Inl (Error (oddMessage c n))
      | None \<Rightarrow>
          Inr \<lparr>height = h, width = w,
               board = map (\<lambda>i. map (\<lambda>j. faceDown (allCardsOf content ! (i * nat w + j))) [0..<nat w]) [0..<nat h],
               playerStates = [], listeners = [], claimLocks = [], delivered = []\<rparr>)"
proof -
  let ?xs = "allCardsOf content"
  let ?rows = "map (\<lambda>i. map (\<lambda>j. ?xs ! (i * nat w + j)) [0..<nat w]) [0..<nat h]"
  have fl: "firstLineOf content \<noteq> []" using d dimensionsOf_empty by auto
  have n: "length ?xs = nat h * nat w"
    using len pos by (metis nat_int nat_mult_distrib order_less_imp_le)
  have hw: "h \<le> h * w" "w \<le> h * w"
    using pos by (simp_all add: mult_le_cancel_left1 mult_le_cancel_right1)
  then have rows: "\<not> int (length (fileLines content)) < h + 1"
    using length_allCards [of content] len by linarith
  have ex: "\<bar>h\<bar> < 2 ^ 53" "\<bar>w\<bar> < 2 ^ 53" using hw small pos by linarith+
  have idx: "\<forall>i \<in> set [0..<nat h]. \<forall>j < nat w. i * nat w + j < length ?xs \<and> ?xs ! (i * nat w + j) \<noteq> []"
  proof (intro ballI allI impI)
    fix i j assume "i \<in> set [0..<nat h]" "j < nat w"
    then have "i * nat w + j < Suc i * nat w" "Suc i \<le> nat h" by simp_all
    then have "i * nat w + j < nat h * nat w"
      by (meson less_le_trans mult_le_mono1)
    then have "i * nat w + j < length ?xs" by (simp add: n)
    then show "i * nat w + j < length ?xs \<and> ?xs ! (i * nat w + j) \<noteq> []"
      using allCards_nonempty [of "?xs ! (i * nat w + j)" content] by simp
  qed
  have cc: "concat ?rows = ?xs" using rows_concat [of "nat h" "nat w" ?xs] n by simp
  have fr: "fillRows ?xs (nat w) [0..<nat h] [] = Inr (?rows, fold countCard ?xs [])"
    using fillRows_ok [OF idx, of "[]"] cc by simp
  have nb: "newBoard h w ?rows =
     Inr \<lparr>height = h, width = w, board = map (map faceDown) ?rows,
          playerStates = [], listeners = [], claimLocks = [], delivered = []\<rparr>"
    using pos idx by (intro newBoard_ok) auto
  have "parseFromFile host content =
     (case find (\<lambda>(c, n). n mod 2 \<noteq> 0) (fold countCard ?xs []) of
        Some (c, n) \<Rightarrow> Inl (Error (oddMessage c n))
      | None \<Rightarrow> newBoard h w ?rows)"
    using fl pos rows ev len ex small by (simp add: parseFromFile_dims [OF d] fr)
  moreover have "map (map faceDown) ?rows =
      map (\<lambda>i. map (\<lambda>j. faceDown (?xs ! (i * nat w + j))) [0..<nat w]) [0..<nat h]"
    by (simp add: comp_def)
  ultimately show ?thesis by (simp only: nb)
qed

lemma find_odd_None:
  "find (\<lambda>(c, n). n mod 2 \<noteq> 0) (fold countCard xs []) = None \<longleftrightarrow> (\<forall>t \<in> set xs. even (count_list xs t))"
  by (auto simp: find_None_iff counts_entries)

lemma find_odd_Some:
  assumes "find (\<lambda>(c, n). n mod 2 \<noteq> 0) (fold countCard xs []) = Some (c, n)"
  shows "c \<in> set xs \<and> n = count_list xs c \<and> odd n"
proof -
  have "(c, n) \<in> set (fold countCard xs []) \<and> n mod 2 \<noteq> 0"
    using assms by (auto simp: find_Some_iff in_set_conv_nth)
  then show ?thesis by (auto simp: counts_entries odd_iff_mod_2_eq_one)
qed

text \<open>
  C2, as the code has it, for a file that is a string of the program (a string has fewer
  than \<open>2^53\<close> code units). \<open>parseFromFile\<close> returns a board exactly when the first line
  parses as \<open>{H}x{W}\<close> with \<open>H > 0\<close> and \<open>W > 0\<close>, \<open>H * W\<close> is even, there are \<open>H * W\<close> card
  tokens, and every token occurs an even number of times; the board then has the tokens
  in row-major order, face down. An empty first line gives \<open>empty board file\<close>. With
  dimensions that parse and are positive: a file of fewer than \<open>H + 1\<close> lines gives
  \<open>insufficient board rows\<close>; otherwise, with \<open>H * W\<close> below \<open>2^53\<close>, an odd \<open>H * W\<close> gives
  \<open>total number of cards must be even\<close>, and an even one with a token count other than
  \<open>H * W\<close> gives the \<open>expected ... but got ...\<close> message with the three numbers in decimal
  digits; with \<open>H * W\<close> of \<open>2^53\<close> or more the file is rejected with the message that the
  rounding and the number format of the host decide; otherwise a token of odd
  multiplicity gives the \<open>card ... appears ... times\<close> message for such a token.
\<close>

theorem parseFromFile_validation:
  assumes "length content < 2 ^ 53"
  shows
  "((\<exists>st. parseFromFile host content = Inr st) \<longleftrightarrow>
      (\<exists>h w. dimensionsOf (firstLineOf content) = Some (h, w) \<and> 0 < h \<and> 0 < w \<and> even (h * w) \<and>
             int (length (allCardsOf content)) = h * w \<and>
             (\<forall>t \<in> set (allCardsOf content). even (count_list (allCardsOf content) t)))) \<and>
   (firstLineOf content = [] \<longrightarrow> parseFromFile host content = Inl (Error ''empty board file'')) \<and>
   (\<forall>h w. dimensionsOf (firstLineOf content) = Some (h, w) \<and> 0 < h \<and> 0 < w \<longrightarrow>
      (int (length (fileLines content)) < h + 1 \<longrightarrow>
         parseFromFile host content = Inl (Error ''insufficient board rows'')) \<and>
      (h + 1 \<le> int (length (fileLines content)) \<and> h * w < 2 ^ 53 \<and> odd (h * w) \<longrightarrow>
         parseFromFile host content = Inl (Error ''total number of cards must be even'')) \<and>
      (h + 1 \<le> int (length (fileLines content)) \<and> h * w < 2 ^ 53 \<and> even (h * w) \<and>
       int (length (allCardsOf content)) \<noteq> h * w \<longrightarrow>
         parseFromFile host content =
           Inl (Error (expectedMessage (h * w) h w (length (allCardsOf content))))) \<and>
      (h + 1 \<le> int (length (fileLines content)) \<and> 2 ^ 53 \<le> h * w \<longrightarrow>
         parseFromFile host content = Inl (Error (bigNumbersMessage host content))) \<and>
      (even (h * w) \<and> int (length (allCardsOf content)) = h * w \<and>
       (\<exists>t \<in> set (allCardsOf content). odd (count_list (allCardsOf content) t)) \<longrightarrow>
         (\<exists>t \<in> set (allCardsOf content). odd (count_list (allCardsOf content) t) \<and>
            parseFromFile host content = Inl (Error (oddMessage t (count_list (allCardsOf content) t))))) \<and>
      (even (h * w) \<and> int (length (allCardsOf content)) = h * w \<and>
       (\<forall>t \<in> set (allCardsOf content). even (count_list (allCardsOf content) t)) \<longrightarrow>
         parseFromFile host content =
           Inr \<lparr>height = h, width = w,
                board = map (\<lambda>i. map (\<lambda>j. faceDown (allCardsOf content ! (i * nat w + j))) [0..<nat w])
                          [0..<nat h],
                playerStates = [], listeners = [], claimLocks = [], delivered = []\<rparr>))"
proof -
  let ?xs = "allCardsOf content"
  let ?P = "parseFromFile host content"
  have "int (length content) < 2 ^ 53" using assms by simp
  then have lines: "int (length (fileLines content)) \<le> 2 ^ 53"
    using length_fileLines [of content] by linarith
  have cards: "int (length ?xs) < 2 ^ 53"
    using length_allCards [of content] lines by linarith
  have good: "?P = Inr \<lparr>height = h, width = w,
                board = map (\<lambda>i. map (\<lambda>j. faceDown (?xs ! (i * nat w + j))) [0..<nat w]) [0..<nat h],
                playerStates = [], listeners = [], claimLocks = [], delivered = []\<rparr>"
    if "dimensionsOf (firstLineOf content) = Some (h, w)" "0 < h" "0 < w" "even (h * w)"
      "int (length ?xs) = h * w" "\<forall>t \<in> set ?xs. even (count_list ?xs t)" for h w
  proof -
    have "h * w < 2 ^ 53" using cards that(5) by simp
    then show ?thesis
      using parse_checked [OF that(1-5)] find_odd_None [of ?xs] that(6) by simp
  qed
  have bad: "\<exists>t \<in> set ?xs. odd (count_list ?xs t) \<and> ?P = Inl (Error (oddMessage t (count_list ?xs t)))"
    if "dimensionsOf (firstLineOf content) = Some (h, w)" "0 < h" "0 < w" "even (h * w)"
      "int (length ?xs) = h * w" "\<exists>t \<in> set ?xs. odd (count_list ?xs t)" for h w
  proof -
    have small: "h * w < 2 ^ 53" using cards that(5) by simp
    have "find (\<lambda>(c, n). n mod 2 \<noteq> 0) (fold countCard ?xs []) \<noteq> None"
      using that(6) find_odd_None [of ?xs] by blast
    then obtain c n where f: "find (\<lambda>(c, n). n mod 2 \<noteq> 0) (fold countCard ?xs []) = Some (c, n)"
      by auto
    then have "?P = Inl (Error (oddMessage c n))"
      using parse_checked [OF that(1-5) small] by simp
    then show ?thesis using find_odd_Some [OF f] by blast
  qed
  have early: "(int (length (fileLines content)) < h + 1 \<longrightarrow> ?P = Inl (Error ''insufficient board rows'')) \<and>
      (h + 1 \<le> int (length (fileLines content)) \<and> h * w < 2 ^ 53 \<and> odd (h * w) \<longrightarrow>
         ?P = Inl (Error ''total number of cards must be even'')) \<and>
      (h + 1 \<le> int (length (fileLines content)) \<and> h * w < 2 ^ 53 \<and> even (h * w) \<and>
       int (length ?xs) \<noteq> h * w \<longrightarrow>
         ?P = Inl (Error (expectedMessage (h * w) h w (length ?xs)))) \<and>
      (h + 1 \<le> int (length (fileLines content)) \<and> 2 ^ 53 \<le> h * w \<longrightarrow>
         ?P = Inl (Error (bigNumbersMessage host content)))"
    if "dimensionsOf (firstLineOf content) = Some (h, w)" "0 < h" "0 < w" for h w
  proof -
    have fl: "firstLineOf content \<noteq> []" using that(1) dimensionsOf_empty by auto
    define t where "t = h * w"
    have "w \<le> t"
      unfolding t_def using that(2,3) by (simp add: mult_le_cancel_right1)
    then have "\<not> (\<bar>w\<bar> < 2 ^ 53 \<and> t < 2 ^ 53) \<longleftrightarrow> 2 ^ 53 \<le> t"
      using that(3) by auto
    then have b: "\<not> (\<bar>w\<bar> < 2 ^ 53 \<and> h * w < 2 ^ 53) \<longleftrightarrow> 2 ^ 53 \<le> h * w"
      unfolding t_def .
    have g: "(\<bar>h\<bar> < 2 ^ 53 \<longrightarrow> int (length (fileLines content)) < h + 1)
        \<longleftrightarrow> int (length (fileLines content)) < h + 1"
      using lines that(2) by auto
    show ?thesis
      unfolding parseFromFile_dims [OF that(1)] g b
      using fl that(2,3) by (auto simp: odd_iff_mod_2_eq_one)
  qed
  have empty: "firstLineOf content = [] \<longrightarrow> ?P = Inl (Error ''empty board file'')"
    by (simp add: parseFromFile_def)
  have iff: "(\<exists>st. ?P = Inr st) \<longleftrightarrow>
      (\<exists>h w. dimensionsOf (firstLineOf content) = Some (h, w) \<and> 0 < h \<and> 0 < w \<and> even (h * w) \<and>
             int (length ?xs) = h * w \<and> (\<forall>t \<in> set ?xs. even (count_list ?xs t)))"
  proof
    assume "\<exists>st. ?P = Inr st"
    then obtain st where st: "?P = Inr st" ..
    then obtain h w where d: "dimensionsOf (firstLineOf content) = Some (h, w)"
      using parseFromFile_no_dims [of content host] by (cases "dimensionsOf (firstLineOf content)") auto
    have c: "0 < h \<and> 0 < w \<and> even (h * w) \<and> int (length ?xs) = h * w"
      using st unfolding parseFromFile_dims [OF d] by (auto split: if_splits)
    have "\<forall>t \<in> set ?xs. even (count_list ?xs t)"
    proof (rule ccontr)
      assume "\<not> (\<forall>t \<in> set ?xs. even (count_list ?xs t))"
      then have "\<exists>t \<in> set ?xs. odd (count_list ?xs t)" by blast
      then show False using bad [OF d] c st by auto
    qed
    then show "\<exists>h w. dimensionsOf (firstLineOf content) = Some (h, w) \<and> 0 < h \<and> 0 < w \<and> even (h * w) \<and>
             int (length ?xs) = h * w \<and> (\<forall>t \<in> set ?xs. even (count_list ?xs t))"
      using d c by blast
  next
    assume "\<exists>h w. dimensionsOf (firstLineOf content) = Some (h, w) \<and> 0 < h \<and> 0 < w \<and> even (h * w) \<and>
             int (length ?xs) = h * w \<and> (\<forall>t \<in> set ?xs. even (count_list ?xs t))"
    then show "\<exists>st. ?P = Inr st" using good by blast
  qed
  show ?thesis
    using iff empty early bad good by (intro conjI allI impI) blast+
qed

theorem parseFromFile_validation_witness:
  "length ''2x2\<newline>A\<newline>B\<newline>B\<newline>A'' < 2 ^ 53 \<and>
   parseFromFile exampleHost ''2x2\<newline>A\<newline>B\<newline>B\<newline>A'' = Inr board2x2 \<and>
   dimensionsOf (firstLineOf ''2x2\<newline>A\<newline>B\<newline>B\<newline>A'') = Some (2, 2) \<and>
   allCardsOf ''2x2\<newline>A\<newline>B\<newline>B\<newline>A'' = [''A'', ''B'', ''B'', ''A''] \<and>
   parseFromFile exampleHost '' \<newline> '' = Inl (Error ''empty board file'') \<and>
   parseFromFile exampleHost ''3x1\<newline>A\<newline>B\<newline>C'' = Inl (Error ''total number of cards must be even'') \<and>
   parseFromFile exampleHost ''2x2\<newline>A\<newline>B\<newline>B\<newline>A\<newline>A'' = Inl (Error ''expected 4 cards (2x2), but got 5 cards'') \<and>
   parseFromFile exampleHost ''2x2\<newline>A\<newline>B\<newline>B\<newline>C'' =
     Inl (Error (''card '' @ [CHR 0x22] @ ''A'' @ [CHR 0x22] @ '' appears 1 times, which is not a multiple of 2'')) \<and>
   parseFromFile exampleHost ''2x2\<newline>A'' = Inl (Error ''insufficient board rows'') \<and>
   dimensionsOf (firstLineOf ''1x9007199254740993\<newline>A'') = Some (1, 9007199254740993) \<and>
   parseFromFile exampleHost ''1x9007199254740993\<newline>A'' =
     Inl (Error (exampleHost ''1'' ''9007199254740993'' 1))"
proof -
  let ?c = "''2x2\<newline>A\<newline>B\<newline>B\<newline>A''"
  let ?big = "''1x9007199254740993\<newline>A''"
  have l: "length ?c < 2 ^ 53" "length ?big < 2 ^ 53" by simp_all
  have d: "dimensionsOf (firstLineOf ?c) = Some (2, 2)" by code_simp
  have a: "allCardsOf ?c = [''A'', ''B'', ''B'', ''A'']" by code_simp
  have e: "even ((2::int) * 2)" "int (length (allCardsOf ?c)) = 2 * 2"
    "\<forall>t \<in> set (allCardsOf ?c). even (count_list (allCardsOf ?c) t)"
    by (simp_all add: a)
  have p: "(0::int) < 2" by simp
  have b: "map (\<lambda>i. map (\<lambda>j. faceDown (allCardsOf ?c ! (i * nat 2 + j))) [0..<nat 2]) [0..<nat 2]
      = board board2x2"
    unfolding a by code_simp
  have "parseFromFile exampleHost ?c =
      Inr \<lparr>height = 2, width = 2,
           board = map (\<lambda>i. map (\<lambda>j. faceDown (allCardsOf ?c ! (i * nat 2 + j))) [0..<nat 2]) [0..<nat 2],
           playerStates = [], listeners = [], claimLocks = [], delivered = []\<rparr>"
    using parseFromFile_validation [OF l(1), of exampleHost, THEN conjunct2, THEN conjunct2, rule_format, of 2 2,
        OF conjI [OF d conjI [OF p p]], THEN conjunct2, THEN conjunct2, THEN conjunct2, THEN conjunct2,
        THEN conjunct2, THEN mp, OF conjI [OF e(1) conjI [OF e(2) e(3)]]] .
  then have ok: "parseFromFile exampleHost ?c = Inr board2x2"
    unfolding b by (simp add: board2x2_def)
  have fl: "firstLineOf ?big = ''1x9007199254740993''" by code_simp
  have sp: "split_on CHR ''x'' ''1x9007199254740993'' = [''1'', ''9007199254740993'']" by code_simp
  have tr: "trim ''1'' = ''1''" "trim ''9007199254740993'' = ''9007199254740993''" by code_simp+
  have dv: "digits_val ''9007199254740993'' = 9007199254740993"
    by (simp add: digits_val_def digit_val_def)
  have pw: "parseInt ''9007199254740993'' = Rounded 9007199254740993"
    by (simp add: parseInt_def isWhitespace_def isDigit_def dv)
  have ph: "parseInt ''1'' = Exact 1" by code_simp
  have db: "dimensionsOf (firstLineOf ?big) = Some (1, 9007199254740993)"
    by (simp add: fl dimensionsOf_def sp tr pw ph)
  have pb: "(0::int) < 1" "(0::int) < 9007199254740993" by simp_all
  have lb: "1 + 1 \<le> int (length (fileLines ?big))" by code_simp
  have hb: "(2::int) ^ 53 \<le> 1 * 9007199254740993" by simp
  have mb: "bigNumbersMessage exampleHost ?big = exampleHost ''1'' ''9007199254740993'' 1"
    unfolding bigNumbersMessage_def fl sp list.case tr by code_simp
  have "parseFromFile exampleHost ?big = Inl (Error (bigNumbersMessage exampleHost ?big))"
    using parseFromFile_validation [OF l(2), of exampleHost, THEN conjunct2, THEN conjunct2, rule_format,
        of 1 9007199254740993, OF conjI [OF db conjI [OF pb]], THEN conjunct2, THEN conjunct2,
        THEN conjunct2, THEN conjunct1, THEN mp, OF conjI [OF lb hb]] .
  then have big: "parseFromFile exampleHost ?big = Inl (Error (exampleHost ''1'' ''9007199254740993'' 1))"
    unfolding mb .
  have e1: "parseFromFile exampleHost '' \<newline> '' = Inl (Error ''empty board file'')" by code_simp
  have e2: "parseFromFile exampleHost ''3x1\<newline>A\<newline>B\<newline>C'' = Inl (Error ''total number of cards must be even'')"
    by code_simp
  have e3: "parseFromFile exampleHost ''2x2\<newline>A\<newline>B\<newline>B\<newline>A\<newline>A'' = Inl (Error ''expected 4 cards (2x2), but got 5 cards'')"
    by code_simp
  have e4: "parseFromFile exampleHost ''2x2\<newline>A\<newline>B\<newline>B\<newline>C'' =
     Inl (Error (''card '' @ [CHR 0x22] @ ''A'' @ [CHR 0x22] @ '' appears 1 times, which is not a multiple of 2''))"
    by code_simp
  have e5: "parseFromFile exampleHost ''2x2\<newline>A'' = Inl (Error ''insufficient board rows'')" by code_simp
  show ?thesis using l(1) ok d a e1 e2 e3 e4 e5 db big by (intro conjI)
qed

text \<open>
  The claim as it was stated fails on the file \<open>2x2, A\<close>: the first line parses as \<open>2x2\<close>,
  the product is even and there is one token, not four, yet the error is
  \<open>insufficient board rows\<close>, not the \<open>expected 4 cards (2x2), but got 1 cards\<close> of the
  claim.
\<close>

theorem parseFromFile_short_file_counterexample:
  "dimensionsOf (firstLineOf ''2x2\<newline>A'') = Some (2, 2) \<and>
   allCardsOf ''2x2\<newline>A'' = [''A''] \<and>
   expectedMessage (2 * 2) 2 2 (length (allCardsOf ''2x2\<newline>A'')) = ''expected 4 cards (2x2), but got 1 cards'' \<and>
   parseFromFile exampleHost ''2x2\<newline>A'' = Inl (Error ''insufficient board rows'') \<and>
   parseFromFile exampleHost ''2x2\<newline>A'' \<noteq> Inl (Error ''expected 4 cards (2x2), but got 1 cards'')"
  by code_simp

section \<open>The invariant over all states\<close>

lemma state_inv_core: "core st' = core st \<Longrightarrow> state_inv st' = state_inv st"
  by (simp add: core_def state_inv_def board_inv_def holdsFirst_ok_def)

lemma core_simple [simp]:
  "core (publish st) = core st"
  "core (snd (notifyAll st)) = core st"
  "core (snd (publishAndLook st p)) = core st"
  "core (snd (watch st p)) = core st"
  "core (snd (awaitWatch st p wp)) = core st"
  by (simp_all add: core_def awaitWatch_state)

lemma state_inv_simple [simp]:
  "state_inv (publish st) = state_inv st"
  "state_inv (snd (notifyAll st)) = state_inv st"
  "state_inv (snd (publishAndLook st p)) = state_inv st"
  "state_inv (snd (watch st p)) = state_inv st"
  "state_inv (snd (awaitWatch st p wp)) = state_inv st"
  by (rule state_inv_core, simp)+

text \<open>Setting the state of one player.\<close>

lemma state_inv_setState:
  assumes "state_inv st"
    and "\<And>first. firstCard s = Some first \<Longrightarrow> secondCard s = None \<Longrightarrow>
          \<exists>x. cellAt (board st) (pos_row first) (pos_col first) = Some x \<and>
              (card_val x = [] \<or> controller x = Some p)"
  shows "state_inv (setState st p s)"
proof -
  have "\<exists>x. cellAt (board st) (pos_row first) (pos_col first) = Some x \<and>
        (card_val x = [] \<or> controller x = Some q)"
    if "mapGet (mapSet p s (playerStates st)) q = Some t" "firstCard t = Some first" "secondCard t = None"
    for q t first
  proof (cases "q = p")
    case True
    then have "t = s" using that(1) by (simp add: mapGet_mapSet)
    then show ?thesis using assms(2) [of first] that(2,3) True by simp
  next
    case False
    then have "mapGet (playerStates st) q = Some t" using that(1) by (simp add: mapGet_mapSet)
    then show ?thesis using assms(1) that(2,3) unfolding state_inv_def holdsFirst_ok_def by blast
  qed
  then show ?thesis using assms(1) by (simp add: state_inv_def holdsFirst_ok_def)
qed

lemma state_inv_idle: "state_inv st \<Longrightarrow> state_inv (setState st p idle)"
  by (rule state_inv_setState) (simp_all add: idle_def)

text \<open>
  A change of one cell that keeps a missing card missing, and keeps the controller
  wherever the card is still there.
\<close>

lemma state_inv_onCell:
  assumes "state_inv st"
    and "\<And>x. cellAt (board st) r c = Some x \<Longrightarrow> cell_ok x \<Longrightarrow> cell_ok (f x)"
    and "\<And>x. cellAt (board st) r c = Some x \<Longrightarrow>
          (card_val x = [] \<longrightarrow> card_val (f x) = []) \<and>
          (card_val (f x) = [] \<or> controller (f x) = controller x)"
  shows "state_inv (onCell st r c f)"
proof -
  have bi: "board_inv (onCell st r c f)"
    using assms(1,2) by (intro board_inv_onCell) (auto simp: state_inv_def)
  have "\<exists>x. cellAt (board (onCell st r c f)) (pos_row first) (pos_col first) = Some x \<and>
        (card_val x = [] \<or> controller x = Some p)"
    if "mapGet (playerStates st) p = Some s" "firstCard s = Some first" "secondCard s = None" for p s first
  proof -
    from assms(1) that obtain x where x: "cellAt (board st) (pos_row first) (pos_col first) = Some x"
      "card_val x = [] \<or> controller x = Some p"
      unfolding state_inv_def holdsFirst_ok_def by blast
    show ?thesis
    proof (cases "pos_row first = r \<and> pos_col first = c")
      case True
      then have "cellAt (board (onCell st r c f)) (pos_row first) (pos_col first) = Some (f x)"
        using x(1) by (simp add: cellAt_modCell)
      moreover have "card_val (f x) = [] \<or> controller (f x) = Some p"
        using assms(3) [of x] x True by auto
      ultimately show ?thesis by simp
    next
      case False
      then show ?thesis using x by (auto simp: cellAt_modCell)
    qed
  qed
  then show ?thesis using bi assms(1) by (simp add: state_inv_def holdsFirst_ok_def)
qed

lemma state_inv_removeCard: "state_inv st \<Longrightarrow> state_inv (removeCard st q)"
  unfolding removeCard_def by (rule state_inv_onCell) (simp_all add: cell_ok_def)

lemma state_inv_turnDown:
  assumes "state_inv st"
  shows "state_inv (turnDown st p q)"
proof -
  have "state_inv (onCell st (pos_row q) (pos_col q) (\<lambda>c. c\<lparr>faceUp := False\<rparr>))"
    if "cellAt (board st) (pos_row q) (pos_col q) = Some x" "controller x = None" for x
    using assms that by (intro state_inv_onCell) (simp_all add: cell_ok_def)
  then show ?thesis using assms by (simp add: turnDown_def split: option.splits)
qed

lemma cleanup_cases:
  obtains (untouched) "cleanupPreviousMove st p = (None, st)"
      "\<And>s. mapGet (playerStates st) p = Some s \<Longrightarrow> firstCard s = None \<or> secondCard s = None"
    | (matched) a b where
      "cleanupPreviousMove st p = (None, setState (removeCard (removeCard st a) b) p idle)"
    | (unmatched) a b where
      "snd (cleanupPreviousMove st p) = setState (turnDown (turnDown st p a) p b) p idle"
    | (absent) a where
      "cleanupPreviousMove st p = notifyAll (setState (turnDown st p a) p idle)"
proof (cases "mapGet (playerStates st) p")
  case None
  then show ?thesis using untouched by (simp add: cleanupPreviousMove_def)
next
  case (Some s)
  show ?thesis
  proof (cases "firstCard s")
    case None
    then show ?thesis using untouched Some by (simp add: cleanupPreviousMove_def)
  next
    case F: (Some a)
    show ?thesis
    proof (cases "secondCard s")
      case None
      then show ?thesis using untouched Some F by (simp add: cleanupPreviousMove_def)
    next
      case S: (Some b)
      show ?thesis
      proof (cases "hasMatch s")
        case True
        then show ?thesis using matched [of a b] Some F S by (simp add: cleanupPreviousMove_def Let_def)
      next
        case False
        show ?thesis
        proof (cases "b = NoneCard")
          case True
          then show ?thesis using absent [of a] Some F S False
            by (simp add: cleanupPreviousMove_def Let_def)
        next
          case N: False
          then show ?thesis using unmatched [of a b] Some F S False
            by (simp add: cleanupPreviousMove_def Let_def)
        qed
      qed
    qed
  qed
qed

lemma state_inv_cleanup:
  assumes "state_inv st"
  shows "state_inv (snd (cleanupPreviousMove st p))"
proof (cases rule: cleanup_cases [of st p])
  case untouched
  then show ?thesis using assms by simp
next
  case (matched a b)
  then show ?thesis using assms by (simp add: state_inv_idle state_inv_removeCard)
next
  case (unmatched a b)
  then show ?thesis using assms by (simp add: state_inv_idle state_inv_turnDown)
next
  case (absent a)
  then show ?thesis using assms by (simp add: state_inv_idle state_inv_turnDown)
qed

lemma cleanup_leaves_no_pair:
  assumes "mapGet (playerStates (snd (cleanupPreviousMove st p))) p = Some s"
  shows "firstCard s = None \<or> secondCard s = None"
proof (cases rule: cleanup_cases [of st p])
  case untouched
  then show ?thesis using assms by simp
next
  case (matched a b)
  then show ?thesis using assms by (auto simp: mapGet_mapSet idle_def)
next
  case (unmatched a b)
  then show ?thesis using assms by (auto simp: mapGet_mapSet idle_def)
next
  case (absent a)
  then show ?thesis using assms by (auto simp: mapGet_mapSet idle_def)
qed


text \<open>A player gives up the first card: its controller is cleared and a second card recorded.\<close>

lemma state_inv_release:
  assumes inv: "state_inv st"
    and s: "mapGet (playerStates st) p = Some s" "firstCard s = Some first" "secondCard s = None"
    and s': "secondCard s' \<noteq> None"
  shows "state_inv (setState (onCell st (pos_row first) (pos_col first) (\<lambda>c. c\<lparr>controller := None\<rparr>)) p s')"
proof -
  let ?st1 = "onCell st (pos_row first) (pos_col first) (\<lambda>c. c\<lparr>controller := None\<rparr>)"
  from inv s obtain x where x: "cellAt (board st) (pos_row first) (pos_col first) = Some x"
    "card_val x = [] \<or> controller x = Some p"
    unfolding state_inv_def holdsFirst_ok_def by blast
  have bi: "board_inv ?st1"
    using inv by (intro board_inv_onCell) (auto simp: state_inv_def cell_ok_def)
  have "\<exists>y. cellAt (board ?st1) (pos_row f) (pos_col f) = Some y \<and> (card_val y = [] \<or> controller y = Some q)"
    if t: "mapGet (mapSet p s' (playerStates st)) q = Some t" "firstCard t = Some f" "secondCard t = None"
    for q t f
  proof -
    have qp: "q \<noteq> p" using t s' by (auto simp: mapGet_mapSet)
    then have "mapGet (playerStates st) q = Some t" using t(1) by (simp add: mapGet_mapSet)
    then obtain y where y: "cellAt (board st) (pos_row f) (pos_col f) = Some y"
      "card_val y = [] \<or> controller y = Some q"
      using inv t(2,3) unfolding state_inv_def holdsFirst_ok_def by blast
    show ?thesis
    proof (cases "pos_row f = pos_row first \<and> pos_col f = pos_col first")
      case True
      then have "y = x" using x y by simp
      then have "card_val x = []" using x(2) y(2) qp by auto
      then show ?thesis using True x by (simp add: cellAt_modCell)
    next
      case False
      then show ?thesis using y by (auto simp: cellAt_modCell)
    qed
  qed
  then show ?thesis using bi inv by (simp add: state_inv_def holdsFirst_ok_def)
qed

lemma state_inv_flipNoCard:
  assumes "state_inv st" and "mapGet (playerStates st) p = Some s"
    and "firstCard s = None \<or> secondCard s = None"
  shows "state_inv (snd (flipNoCard st p s))"
proof (cases "firstCard s")
  case None
  then show ?thesis using assms(1) by (simp add: flipNoCard_def)
next
  case (Some first)
  then have sec: "secondCard s = None" using assms(3) by simp
  show ?thesis
  proof (cases "cellAt (board st) (pos_row first) (pos_col first)")
    case None
    then show ?thesis using assms(1) Some by (simp add: flipNoCard_def)
  next
    case C: (Some x)
    have "state_inv (setState (onCell st (pos_row first) (pos_col first) (\<lambda>c. c\<lparr>controller := None\<rparr>)) p
        (s\<lparr>secondCard := Some NoneCard\<rparr>))"
      by (rule state_inv_release [OF assms(1,2) Some sec]) simp
    then show ?thesis using Some C
      by (simp add: flipNoCard_def Let_def case_prod_beta split: option.splits)
  qed
qed

lemma state_inv_claimLoop:
  assumes inv: "state_inv st" and cell: "cellAt (board st) row col = Some cell"
  shows "state_inv (snd (claimLoop st p row col s cell))"
proof (cases "card_val cell = [] \<or> controlledByOther cell p")
  case True
  then show ?thesis using inv by (auto simp: claimLoop_def)
next
  case False
  let ?up = "\<lambda>c. c\<lparr>faceUp := True, controller := Some p\<rparr>"
  let ?s1 = "s\<lparr>firstCard := Some (Pos row col)\<rparr>"
  let ?st1 = "onCell st row col ?up"
  have bi: "board_inv st" and cl: "claimLocks st = []" using inv by (simp_all add: state_inv_def)
  have nh: "\<not> mapHas (claimLocks st) (cellKey row col)" by (simp add: cl mapHas_def)
  have res: "snd (claimLoop st p row col s cell) = publish (setState ?st1 p ?s1)"
    using claimLoop_success [OF bi cell _ _ nh, of p s] False by simp
  have bi1: "board_inv ?st1"
    using bi cell False by (intro board_inv_onCell) (auto simp: cell_ok_def)
  have "\<exists>y. cellAt (board ?st1) (pos_row f) (pos_col f) = Some y \<and> (card_val y = [] \<or> controller y = Some q)"
    if t: "mapGet (mapSet p ?s1 (playerStates st)) q = Some t" "firstCard t = Some f" "secondCard t = None"
    for q t f
  proof (cases "q = p")
    case True
    then have "f = Pos row col" using t by (auto simp: mapGet_mapSet)
    then show ?thesis using cell True by (simp add: cellAt_modCell)
  next
    case qp: False
    then have "mapGet (playerStates st) q = Some t" using t(1) by (simp add: mapGet_mapSet)
    then obtain y where y: "cellAt (board st) (pos_row f) (pos_col f) = Some y"
      "card_val y = [] \<or> controller y = Some q"
      using inv t(2,3) unfolding state_inv_def holdsFirst_ok_def by blast
    show ?thesis
    proof (cases "pos_row f = row \<and> pos_col f = col")
      case True
      then have "y = cell" using y cell by simp
      then have "controller cell = Some q" using y(2) False by simp
      then have "controlledByOther cell p" using qp by (simp add: controlledByOther_def)
      then show ?thesis using False by simp
    next
      case F2: False
      then show ?thesis using y by (auto simp: cellAt_modCell)
    qed
  qed
  then have "state_inv (setState ?st1 p ?s1)"
    using bi1 cl by (simp add: state_inv_def holdsFirst_ok_def)
  then show ?thesis by (simp add: res)
qed

lemma state_inv_waitLoop:
  "state_inv st \<Longrightarrow> cellAt (board st) row col = Some cell \<Longrightarrow>
   state_inv (snd (waitLoop st p row col s cell))"
  by (simp add: waitLoop_def state_inv_claimLoop)


lemma state_inv_secondFlip:
  assumes inv: "state_inv st"
    and s: "mapGet (playerStates st) p = Some s" "firstCard s = Some first" "secondCard s = None"
    and cell: "cellAt (board st) row col = Some cell" and card: "card_val cell \<noteq> []"
  shows "state_inv (snd (secondFlip st p row col s first cell))"
proof -
  have bi: "board_inv st" and cl: "claimLocks st = []" using inv by (simp_all add: state_inv_def)
  from inv s obtain x where x: "cellAt (board st) (pos_row first) (pos_col first) = Some x"
    "card_val x = [] \<or> controller x = Some p"
    unfolding state_inv_def holdsFirst_ok_def by blast
  show ?thesis
  proof (cases "faceUp cell \<and> controller cell \<noteq> None")
    case True
    have "state_inv (setState (onCell st (pos_row first) (pos_col first) (\<lambda>c. c\<lparr>controller := None\<rparr>)) p
        (s\<lparr>secondCard := Some NoneCard\<rparr>))"
      by (rule state_inv_release [OF inv s]) simp
    then show ?thesis using True x
      by (simp add: secondFlip_def Let_def case_prod_beta split: option.splits)
  next
    case False
    then have free: "controller cell = None"
      using cell_ok_at [OF bi cell] by (auto simp: cell_ok_def)
    obtain fr fc where first: "first = Pos fr fc"
      using x(1) by (cases first) (simp_all add: cellAt_def)
    have xf: "cellAt (board st) fr fc = Some x" using x(1) by (simp add: first)
    have fup: "card_val cell = card_val x \<Longrightarrow> faceUp x"
      using x(2) card cell_ok_at [OF bi xf] by (auto simp: cell_ok_def)
    define ctl where "ctl = (if card_val cell = card_val x then Some p else None)"
    define s' where "s' = (if card_val cell = card_val x
                   then s\<lparr>hasMatch := True, secondCard := Some (Pos row col)\<rparr>
                   else s\<lparr>secondCard := Some (Pos row col), hasMatch := False\<rparr>)"
    define b3 where "b3 = modCell (modCell (modCell (board st) row col (\<lambda>c. c\<lparr>faceUp := True\<rparr>))
                    row col (\<lambda>c. c\<lparr>controller := ctl\<rparr>)) fr fc (\<lambda>c. c\<lparr>controller := ctl\<rparr>)"
    note r = secondFlip_resolves [OF bi cell card False xf fup ctl_def s'_def b3_def]
    have res: "snd (secondFlip st p row col s first cell) = publish (setState (st\<lparr>board := b3\<rparr>) p s')"
      using r(1) by (simp add: first)
    have sec: "secondCard s' \<noteq> None" by (simp add: s'_def)
    have tgt: "(fr, fc) \<noteq> (row, col)"
    proof
      assume "(fr, fc) = (row, col)"
      then have "x = cell" using xf cell by simp
      then show False using x(2) card free by simp
    qed
    have "\<exists>y. cellAt b3 (pos_row f) (pos_col f) = Some y \<and> (card_val y = [] \<or> controller y = Some q)"
      if t: "mapGet (mapSet p s' (playerStates st)) q = Some t" "firstCard t = Some f" "secondCard t = None"
      for q t f
    proof -
      have qp: "q \<noteq> p" using t sec by (auto simp: mapGet_mapSet)
      then have "mapGet (playerStates st) q = Some t" using t(1) by (simp add: mapGet_mapSet)
      then obtain y where y: "cellAt (board st) (pos_row f) (pos_col f) = Some y"
        "card_val y = [] \<or> controller y = Some q"
        using inv t(2,3) unfolding state_inv_def holdsFirst_ok_def by blast
      have nt: "(pos_row f, pos_col f) \<noteq> (row, col)"
      proof
        assume "(pos_row f, pos_col f) = (row, col)"
        then have "y = cell" using y(1) cell by simp
        then show False using y(2) card free by simp
      qed
      show ?thesis
      proof (cases "(pos_row f, pos_col f) = (fr, fc)")
        case True
        then have "y = x" using y(1) xf by simp
        then have "card_val x = []" using x(2) y(2) qp by auto
        then show ?thesis using True r(3) by simp
      next
        case F2: False
        then show ?thesis using nt r(4) y by simp
      qed
    qed
    then have "state_inv (setState (st\<lparr>board := b3\<rparr>) p s')"
      using r(5) cl by (simp add: state_inv_def holdsFirst_ok_def)
    then show ?thesis by (simp add: res)
  qed
qed

lemma state_inv_flip:
  assumes inv: "state_inv st"
  shows "state_inv (snd (flip st p row col))"
proof -
  define st1 where "st1 = (case mapGet (playerStates st) p of None \<Rightarrow> setState st p idle | Some _ \<Rightarrow> st)"
  define st2 where "st2 = snd (cleanupPreviousMove st1 p)"
  define state where "state = (case mapGet (playerStates st2) p of Some s \<Rightarrow> s | None \<Rightarrow> idle)"
  define st3 where "st3 = setState st2 p state"
  have i1: "state_inv st1" using inv by (simp add: st1_def state_inv_idle split: option.splits)
  have i2: "state_inv st2" unfolding st2_def by (rule state_inv_cleanup [OF i1])
  have np: "firstCard state = None \<or> secondCard state = None"
    using cleanup_leaves_no_pair [of st1 p]
    by (auto simp: state_def st2_def idle_def split: option.splits)
  have i3: "state_inv st3"
  proof (cases "mapGet (playerStates st2) p")
    case None
    then show ?thesis using i2 by (simp add: st3_def state_def state_inv_idle)
  next
    case (Some s)
    then show ?thesis using i2 by (simp add: st3_def state_def setState_same)
  qed
  have g3: "mapGet (playerStates st3) p = Some state" by (simp add: st3_def mapGet_mapSet)
  have nc: "state_inv (snd (flipNoCard st3 p state))"
    by (rule state_inv_flipNoCard [OF i3 g3 np])
  have body: "state_inv (snd (case cellAt (board st3) row col of
        None \<Rightarrow> flipNoCard st3 p state
      | Some cell \<Rightarrow>
          if length (card_val cell) = 0 then flipNoCard st3 p state
          else (case firstCard state of
                  None \<Rightarrow> waitLoop st3 p row col state cell
                | Some first \<Rightarrow> secondFlip st3 p row col state first cell)))"
  proof (cases "cellAt (board st3) row col")
    case None
    then show ?thesis using nc by simp
  next
    case (Some cell)
    show ?thesis
    proof (cases "card_val cell = []")
      case True
      then show ?thesis using nc Some by simp
    next
      case False
      show ?thesis
      proof (cases "firstCard state")
        case None
        then show ?thesis using Some False state_inv_waitLoop [OF i3 Some] by simp
      next
        case F: (Some first)
        then have "secondCard state = None" using np by simp
        then show ?thesis
          using Some False F state_inv_secondFlip [OF i3 g3 F _ Some False] by simp
      qed
    qed
  qed
  obtain e where cl: "cleanupPreviousMove st1 p = (e, st2)"
    by (cases "cleanupPreviousMove st1 p") (simp add: st2_def)
  show ?thesis
  proof (cases "row < 0 \<or> height st1 \<le> row \<or> col < 0 \<or> width st1 \<le> col")
    case True
    then have "snd (flip st p row col) = st1"
      unfolding flip_def st1_def [symmetric] Let_def by auto
    then show ?thesis using i1 by simp
  next
    case inb: False
    show ?thesis
    proof (cases e)
      case (Some err)
      then have "snd (flip st p row col) = st2"
        unfolding flip_def st1_def [symmetric] Let_def cl using inb by auto
      then show ?thesis using i2 by simp
    next
      case None
      have c: "(row < 0 \<or> height st1 \<le> row \<or> col < 0 \<or> width st1 \<le> col) = False"
        using inb by simp
      have "flip st p row col = (case cellAt (board st3) row col of
        None \<Rightarrow> flipNoCard st3 p state
      | Some cell \<Rightarrow>
          if length (card_val cell) = 0 then flipNoCard st3 p state
          else (case firstCard state of
                  None \<Rightarrow> waitLoop st3 p row col state cell
                | Some first \<Rightarrow> secondFlip st3 p row col state first cell))"
        unfolding flip_def st1_def [symmetric] Let_def cl None prod.case option.case
          state_def [symmetric] st3_def [symmetric] c if_False ..
      then show ?thesis using body by simp
    qed
  qed
qed

lemma releaseClaim_no_claims: "claimLocks st = [] \<Longrightarrow> releaseClaim st row col p = st"
  by (simp add: releaseClaim_def mapGet_def)

lemma state_inv_flipResume:
  assumes inv: "state_inv st" and r: "flipResume st p row col s wp = Some (out, st')"
  shows "state_inv st'"
proof -
  obtain cell where cell: "cellAt (board st) row col = Some cell"
    using r by (auto simp: flipResume_def split: option.splits)
  have rc: "releaseClaim st row col p = st"
    using inv by (simp add: releaseClaim_no_claims state_inv_def)
  show ?thesis
  proof (cases wp)
    case WaitControlled
    then have "st' = snd (if length (card_val cell) = 0
        then (Threw (Error ''card was removed while waiting''), st) else waitLoop st p row col s cell)"
      using r cell by (simp add: flipResume_def)
    then show ?thesis using inv state_inv_waitLoop [OF inv cell, of p s] by simp
  next
    case WaitRetry
    then have "st' = snd (claimLoop st p row col s cell)"
      using r cell by (simp add: flipResume_def)
    then show ?thesis using state_inv_claimLoop [OF inv cell] by simp
  next
    case WaitClaimed
    then have "st' = snd (claimLoop st p row col s cell)"
      using r cell by (simp add: flipResume_def rc)
    then show ?thesis using state_inv_claimLoop [OF inv cell] by simp
  qed
qed

text \<open>The steps of \<open>map\<close>.\<close>

lemma assignCard_fields [simp]:
  "height (assignCard st i j t) = height st" "width (assignCard st i j t) = width st"
  "claimLocks (assignCard st i j t) = claimLocks st"
  "playerStates (assignCard st i j t) = playerStates st"
  "frame (assignCard st i j t) = frame st"
  by (simp_all add: assignCard_def)

lemma tableOk_get: "tableOk t \<Longrightarrow> mapGet t k = Some v \<Longrightarrow> k \<noteq> [] \<and> v \<noteq> []"
  unfolding tableOk_def mapGet_def by (auto dest: map_of_SomeD)

lemma set_mapSet: "set (mapSet k v m) \<subseteq> insert (k, v) (set m)"
  by (induction m) auto

lemma tableOk_mapSet: "tableOk t \<Longrightarrow> k \<noteq> [] \<Longrightarrow> v \<noteq> [] \<Longrightarrow> tableOk (mapSet k v t)"
  unfolding tableOk_def using set_mapSet [of k v t] by auto

lemma state_inv_assignCard:
  assumes "state_inv st" and "tableOk t"
  shows "state_inv (assignCard st i j t)"
  unfolding assignCard_def
proof (rule state_inv_onCell [OF assms(1)])
  fix x
  assume "cellAt (board st) (int i) (int j) = Some x"
  show "(card_val x = [] \<longrightarrow>
          card_val (x\<lparr>card_val := case mapGet t (card_val x) of Some v \<Rightarrow> v | None \<Rightarrow> card_val x\<rparr>) = []) \<and>
        (card_val (x\<lparr>card_val := case mapGet t (card_val x) of Some v \<Rightarrow> v | None \<Rightarrow> card_val x\<rparr>) = [] \<or>
         controller (x\<lparr>card_val := case mapGet t (card_val x) of Some v \<Rightarrow> v | None \<Rightarrow> card_val x\<rparr>) = controller x)"
    using tableOk_get [OF assms(2)] by (auto split: option.splits)
next
  fix x
  assume "cellAt (board st) (int i) (int j) = Some x" and ok: "cell_ok x"
  show "cell_ok (x\<lparr>card_val := case mapGet t (card_val x) of Some v \<Rightarrow> v | None \<Rightarrow> card_val x\<rparr>)"
    using ok tableOk_get [OF assms(2)] by (auto simp: cell_ok_def split: option.splits)
qed

lemma sweep_frame: "frame (snd (sweep st p f t cells)) = frame st"
proof (induction cells arbitrary: st)
  case Nil
  then show ?case by (simp add: case_prod_beta)
next
  case (Cons c cells)
  obtain i j where c: "c = (i, j)" by (cases c)
  show ?case unfolding c using Cons.IH by (simp split: option.splits)
qed

lemma sweep_state_inv:
  assumes "state_inv st" and "tableOk t"
  shows "state_inv (snd (sweep st p f t cells))"
  using assms(1)
proof (induction cells arbitrary: st)
  case Nil
  then show ?case by (simp add: case_prod_beta)
next
  case (Cons c cells)
  obtain i j where c: "c = (i, j)" by (cases c)
  have "state_inv (assignCard st i j t)" by (rule state_inv_assignCard [OF Cons.prems assms(2)])
  then show ?case unfolding c using Cons.IH Cons.prems by (simp split: option.splits)
qed

lemma sweep_waitOk:
  assumes "tableOk t" and "fst (sweep st p f t cells) = AwaitingF w"
  shows "waitOk f w"
  using assms(2)
proof (induction cells arbitrary: st)
  case Nil
  then show ?case by (simp add: case_prod_beta)
next
  case (Cons c cells)
  obtain i j where c: "c = (i, j)" by (cases c)
  show ?case
  proof (cases "cellAt (board st) (int i) (int j)")
    case None
    then show ?thesis using Cons unfolding c by simp
  next
    case (Some cell)
    show ?thesis
    proof (cases "card_val cell = []")
      case True
      then show ?thesis using Cons Some unfolding c by simp
    next
      case False
      show ?thesis
      proof (cases "mapHas t (card_val cell)")
        case True
        then show ?thesis using Cons Some False unfolding c by simp
      next
        case F: False
        then have "w = \<lparr>wait_row = i, wait_cell = j, wait_card = card_val cell,
            wait_promise = f (card_val cell), wait_replacements = t\<rparr>"
          using Cons.prems Some False unfolding c by simp
        then show ?thesis using False assms(1) by (simp add: waitOk_def)
      qed
    qed
  qed
qed

lemma tableOk_empty: "tableOk []"
  by (simp add: tableOk_def)

lemma waitOk_table:
  assumes "cardFunction f" and "waitOk f w"
  shows "tableOk (mapSet (wait_card w) (wait_promise w) (wait_replacements w))"
  using assms by (intro tableOk_mapSet) (auto simp: waitOk_def cardFunction_def)

lemma waiting_waitOk:
  assumes "cardFunction f" and "waiting f w"
  shows "waitOk f w"
  using assms(2)
proof (induction rule: waiting.induct)
  case (called st p w st')
  then have "fst (sweep st p f [] (cellsFrom (board st) 0 0)) = AwaitingF w"
    by (simp add: map_board_def)
  then show ?case by (rule sweep_waitOk [OF tableOk_empty])
next
  case (continued w st p w' st')
  have t: "tableOk (mapSet (wait_card w) (wait_promise w) (wait_replacements w))"
    by (rule waitOk_table [OF assms(1) continued.IH])
  have "fst (mapResume st p f w) = AwaitingF w'" using continued.hyps(2) by simp
  then show ?case unfolding mapResume_def Let_def by (rule sweep_waitOk [OF t])
qed

lemma state_inv_map_board:
  assumes "state_inv st"
  shows "state_inv (snd (map_board st p f))"
  unfolding map_board_def by (rule sweep_state_inv [OF assms tableOk_empty])

lemma state_inv_mapResume:
  assumes "state_inv st" and "cardFunction f" and "waitOk f w"
  shows "state_inv (snd (mapResume st p f w))"
  unfolding mapResume_def Let_def
  by (rule sweep_state_inv [OF state_inv_assignCard [OF assms(1) waitOk_table [OF assms(2,3)]]
        waitOk_table [OF assms(2,3)]])

lemma frame_map_board: "frame (snd (map_board st p f)) = frame st"
  by (simp add: map_board_def sweep_frame)

lemma frame_mapResume: "frame (snd (mapResume st p f w)) = frame st"
  by (simp add: mapResume_def Let_def sweep_frame)

lemma state_inv_watch: "state_inv st \<Longrightarrow> state_inv (snd (watch st p))"
  by simp

lemma state_inv_loaded:
  assumes "parseFromFile host content = Inr st"
  shows "state_inv st"
proof -
  let ?xs = "allCardsOf content"
  obtain h w where d: "dimensionsOf (firstLineOf content) = Some (h, w)"
    using parseFromFile_no_dims [of content host] assms
    by (cases "dimensionsOf (firstLineOf content)") auto
  have c: "0 < h" "0 < w" "even (h * w)" "int (length ?xs) = h * w" "h * w < 2 ^ 53"
    using assms unfolding parseFromFile_dims [OF d] by (auto split: if_splits)
  have "find (\<lambda>(c, n). n mod 2 \<noteq> 0) (fold countCard ?xs []) = None"
    using parse_checked [OF d c] assms
    by (cases "find (\<lambda>(c, n). n mod 2 \<noteq> 0) (fold countCard ?xs [])") auto
  then have st: "st = \<lparr>height = h, width = w,
      board = map (\<lambda>i. map (\<lambda>j. faceDown (?xs ! (i * nat w + j))) [0..<nat w]) [0..<nat h],
      playerStates = [], listeners = [], claimLocks = [], delivered = []\<rparr>"
    using parse_checked [OF d c] assms by simp
  have "board_inv st"
    using c(1,2) by (auto simp: st board_inv_def cell_ok_def faceDown_def)
  then show ?thesis by (simp add: state_inv_def holdsFirst_ok_def st mapGet_def)
qed

lemma state_inv_step:
  assumes "step st st'" and "state_inv st"
  shows "state_inv st'"
  using assms
proof (cases rule: step.cases)
  case (looked p r)
  then show ?thesis using assms(2) by simp
next
  case (flipped p row col out)
  then show ?thesis using state_inv_flip [OF assms(2), of p row col] by simp
next
  case (resumed p row col s wp out)
  then show ?thesis using state_inv_flipResume [OF assms(2)] by simp
next
  case (mapped f p mout)
  then show ?thesis using state_inv_map_board [OF assms(2), of p f] by simp
next
  case (mapResumed f w p mout)
  then show ?thesis
    using state_inv_mapResume [OF assms(2) mapResumed(1) waiting_waitOk [OF mapResumed(1,2)], of p]
    by simp
next
  case (watched p e)
  then show ?thesis using state_inv_watch [OF assms(2), of p] by simp
next
  case (cleaned p e)
  then show ?thesis using state_inv_cleanup [OF assms(2), of p] by simp
qed

lemma reachable_state_inv: "reachable st \<Longrightarrow> state_inv st"
  by (induction rule: reachable.induct) (auto intro: state_inv_loaded state_inv_step)

lemma frame_step:
  assumes "step st st'" and "claimLocks st = []"
  shows "frame st' = frame st"
  using assms
proof (cases rule: step.cases)
  case (looked p r)
  then show ?thesis by simp
next
  case (flipped p row col out)
  then show ?thesis using frame_flip [of st p row col] by simp
next
  case (resumed p row col s wp out)
  then show ?thesis using frame_flipResume [OF resumed(1)] releaseClaim_no_claims [OF assms(2)] by simp
next
  case (mapped f p mout)
  then show ?thesis using frame_map_board [of st p f] by simp
next
  case (mapResumed f w p mout)
  then show ?thesis using frame_mapResume [of st p f w] by simp
next
  case (watched p e)
  then show ?thesis using frame_simple(6) [of st p] by simp
next
  case (cleaned p e)
  then show ?thesis using frame_cleanupPreviousMove [of st p] by simp
qed

section \<open>The invariant and the first flip, over all states\<close>



text \<open>
  C9, as the code has it. In every state of a board (loaded from a file, then any number
  of steps) the invariant of the representation holds: positive dimensions, a grid of
  \<open>height\<close> rows of \<open>width\<close> cells, in every cell a controller only on a face-up card,
  and a cell without a card face down and uncontrolled. Every step from such a state
  ends in a state where the invariant holds, with the same height, the same width and
  rows of the same lengths. The steps are \<open>look\<close>, \<open>flip\<close> up to its return, throw or
  await, a waiting flip that continues, \<open>watch\<close>, the cleanup by itself, and \<open>map\<close> with
  a function that gives a card for every card, up to its first await of \<open>f\<close> and from one
  await to the next or to its return: the states include the boards that calls of \<open>map\<close>
  have swept in part, with any steps of other calls in between.
\<close>

theorem board_invariant_kept:
  assumes "reachable st"
  shows "board_inv st \<and>
         (\<forall>st'. step st st' \<longrightarrow>
            board_inv st' \<and> height st' = height st \<and> width st' = width st \<and>
            map length (board st') = map length (board st))"
proof -
  have inv: "state_inv st" by (rule reachable_state_inv [OF assms])
  have "board_inv st' \<and> height st' = height st \<and> width st' = width st \<and>
        map length (board st') = map length (board st)" if "step st st'" for st'
  proof -
    have "state_inv st'" by (rule state_inv_step [OF that inv])
    moreover have "frame st' = frame st"
      using frame_step [OF that] inv by (simp add: state_inv_def)
    ultimately show ?thesis by (simp add: state_inv_def frame_def)
  qed
  then show ?thesis using inv by (simp add: state_inv_def)
qed

theorem board_invariant_kept_witness:
  "reachable board2x2 \<and> board_inv board2x2 \<and>
   step board2x2 (snd (flip board2x2 ''p1'' 0 0)) \<and>
   board (snd (flip board2x2 ''p1'' 0 0)) =
     [[\<lparr>card_val = ''A'', faceUp = True, controller = Some ''p1''\<rparr>,
       \<lparr>card_val = ''B'', faceUp = False, controller = None\<rparr>],
      [\<lparr>card_val = ''B'', faceUp = False, controller = None\<rparr>,
       \<lparr>card_val = ''A'', faceUp = False, controller = None\<rparr>]] \<and>
   board_inv (snd (flip board2x2 ''p1'' 0 0)) \<and>
   height (snd (flip board2x2 ''p1'' 0 0)) = 2 \<and> width (snd (flip board2x2 ''p1'' 0 0)) = 2 \<and>
   map length (board (snd (flip board2x2 ''p1'' 0 0))) = [2, 2] \<and>
   reachable boardFirst \<and>
   map_board boardFirst ''p1'' suffix1 =
     (AwaitingF \<lparr>wait_row = 0, wait_cell = 0, wait_card = ''A'', wait_promise = ''A_1'',
                  wait_replacements = []\<rparr>, boardFirst) \<and>
   step boardFirst (snd (mapResume boardFirst ''p1'' suffix1
     \<lparr>wait_row = 0, wait_cell = 0, wait_card = ''A'', wait_promise = ''A_1'', wait_replacements = []\<rparr>)) \<and>
   board (snd (mapResume boardFirst ''p1'' suffix1
     \<lparr>wait_row = 0, wait_cell = 0, wait_card = ''A'', wait_promise = ''A_1'', wait_replacements = []\<rparr>)) =
     [[\<lparr>card_val = ''A_1'', faceUp = True, controller = Some ''p1''\<rparr>,
       \<lparr>card_val = ''B'', faceUp = False, controller = None\<rparr>],
      [\<lparr>card_val = ''B'', faceUp = False, controller = None\<rparr>,
       \<lparr>card_val = ''A'', faceUp = False, controller = None\<rparr>]] \<and>
   board_inv (snd (mapResume boardFirst ''p1'' suffix1
     \<lparr>wait_row = 0, wait_cell = 0, wait_card = ''A'', wait_promise = ''A_1'', wait_replacements = []\<rparr>))"
proof -
  let ?w = "\<lparr>wait_row = 0, wait_cell = 0, wait_card = ''A'', wait_promise = ''A_1'',
             wait_replacements = []\<rparr>"
  have r: "reachable board2x2" by (rule reachable.loaded [OF board2x2_loaded])
  have s: "step board2x2 (snd (flip board2x2 ''p1'' 0 0))"
    by (rule step.flipped [of board2x2 "''p1''" 0 0 "fst (flip board2x2 ''p1'' 0 0)"]) simp
  note t = board_invariant_kept [OF r]
  have a: "board_inv board2x2" using t by (rule conjunct1)
  note u = t [THEN conjunct2, rule_format, OF s]
  have b: "board_inv (snd (flip board2x2 ''p1'' 0 0))" using u by (rule conjunct1)
  have h: "height board2x2 = 2" "width board2x2 = 2" "map length (board board2x2) = [2, 2]"
    by (simp_all add: board2x2_def)
  have c: "height (snd (flip board2x2 ''p1'' 0 0)) = 2" "width (snd (flip board2x2 ''p1'' 0 0)) = 2"
    "map length (board (snd (flip board2x2 ''p1'' 0 0))) = [2, 2]"
    using u h by simp_all
  have e: "board (snd (flip board2x2 ''p1'' 0 0)) =
     [[\<lparr>card_val = ''A'', faceUp = True, controller = Some ''p1''\<rparr>,
       \<lparr>card_val = ''B'', faceUp = False, controller = None\<rparr>],
      [\<lparr>card_val = ''B'', faceUp = False, controller = None\<rparr>,
       \<lparr>card_val = ''A'', faceUp = False, controller = None\<rparr>]]"
    by code_simp
  have r1: "reachable (snd (flip board2x2 ''p1'' 0 0))" by (rule reachable.stepped [OF r s])
  have "step (snd (flip board2x2 ''p1'' 0 0)) (snd (watch (snd (flip board2x2 ''p1'' 0 0)) ''w''))"
    by (rule step.watched [of _ "''w''" "fst (watch (snd (flip board2x2 ''p1'' 0 0)) ''w'')"]) simp
  then have "reachable (snd (watch (snd (flip board2x2 ''p1'' 0 0)) ''w''))"
    by (rule reachable.stepped [OF r1])
  then have r2: "reachable boardFirst" by (simp only: boardFirst_played)
  have m: "map_board boardFirst ''p1'' suffix1 = (AwaitingF ?w, boardFirst)" by code_simp
  have cf: "cardFunction suffix1" by (simp add: cardFunction_def suffix1_def)
  have wt: "waiting suffix1 ?w" by (rule waiting.called [OF m])
  have s2: "step boardFirst (snd (mapResume boardFirst ''p1'' suffix1 ?w))"
    by (rule step.mapResumed [OF cf wt, of boardFirst "''p1''"
          "fst (mapResume boardFirst ''p1'' suffix1 ?w)"]) simp
  have b2: "board_inv (snd (mapResume boardFirst ''p1'' suffix1 ?w))"
    using board_invariant_kept [OF r2, THEN conjunct2, rule_format, OF s2] by (rule conjunct1)
  have e2: "board (snd (mapResume boardFirst ''p1'' suffix1 ?w)) =
     [[\<lparr>card_val = ''A_1'', faceUp = True, controller = Some ''p1''\<rparr>,
       \<lparr>card_val = ''B'', faceUp = False, controller = None\<rparr>],
      [\<lparr>card_val = ''B'', faceUp = False, controller = None\<rparr>,
       \<lparr>card_val = ''A'', faceUp = False, controller = None\<rparr>]]"
    by code_simp
  show ?thesis using r a s e b c r2 m s2 e2 b2 by (intro conjI)
qed

text \<open>
  The claim as it was stated, for every \<open>map\<close>, fails with a function that gives no card,
  \<open>c => ''\<close>: on the board where \<open>p1\<close> has turned up and controls the first card, a state
  of the board in which the invariant holds, \<open>map\<close> awaits \<open>f\<close> at the first cell, and when
  it continues, that cell has no card and is still face up and controlled by \<open>p1\<close>; the
  invariant does not hold on the board it leaves at its next await.
\<close>

theorem map_blank_breaks_invariant_counterexample:
  "board_inv boardFirst \<and>
   boardFirst = snd (watch (snd (flip board2x2 ''p1'' 0 0)) ''w'') \<and>
   map_board boardFirst ''p1'' blank =
     (AwaitingF \<lparr>wait_row = 0, wait_cell = 0, wait_card = ''A'', wait_promise = [],
                  wait_replacements = []\<rparr>, boardFirst) \<and>
   fst (mapResume boardFirst ''p1'' blank
     \<lparr>wait_row = 0, wait_cell = 0, wait_card = ''A'', wait_promise = [], wait_replacements = []\<rparr>) =
     AwaitingF \<lparr>wait_row = 0, wait_cell = 1, wait_card = ''B'', wait_promise = [],
                 wait_replacements = [(''A'', [])]\<rparr> \<and>
   cellAt (board (snd (mapResume boardFirst ''p1'' blank
     \<lparr>wait_row = 0, wait_cell = 0, wait_card = ''A'', wait_promise = [], wait_replacements = []\<rparr>))) 0 0 =
     Some \<lparr>card_val = [], faceUp = True, controller = Some ''p1''\<rparr> \<and>
   \<not> board_inv (snd (mapResume boardFirst ''p1'' blank
     \<lparr>wait_row = 0, wait_cell = 0, wait_card = ''A'', wait_promise = [], wait_replacements = []\<rparr>))"
  by code_simp



end
